theory Spec2Isabelle
  imports Main "HOL-Library.AList" "HOL-Library.Sublist"
begin

section \<open>Python values\<close>

text \<open>
  A Python \<open>str\<close> is a sequence of Unicode code points, and \<open>len\<close>, slicing and the
  regular-expression engine all count code points. A string is therefore a list of code
  points; \<open>ascii\<close> turns an ASCII literal into one.
\<close>

type_synonym pystr = "nat list"

definition ascii :: "string \<Rightarrow> pystr" where
  "ascii s = map of_char s"

text \<open>\<open>str.isspace\<close> of one code point; the same set is what \<open>\s\<close> matches in a \<open>str\<close> pattern.\<close>

definition is_space :: "nat \<Rightarrow> bool" where
  "is_space c = ((9 \<le> c \<and> c \<le> 13) \<or> (28 \<le> c \<and> c \<le> 32) \<or> c = 133 \<or> c = 160 \<or> c = 5760
     \<or> (8192 \<le> c \<and> c \<le> 8202) \<or> c = 8232 \<or> c = 8233 \<or> c = 8239 \<or> c = 8287 \<or> c = 12288)"

text \<open>\<open>s.strip()\<close> and \<open>s.strip(chars)\<close>.\<close>

definition strip_by :: "(nat \<Rightarrow> bool) \<Rightarrow> pystr \<Rightarrow> pystr" where
  "strip_by p s = rev (dropWhile p (rev (dropWhile p s)))"

definition py_strip :: "pystr \<Rightarrow> pystr" where
  "py_strip s = strip_by is_space s"

definition strip_chars :: "pystr \<Rightarrow> pystr \<Rightarrow> pystr" where
  "strip_chars chars s = strip_by (\<lambda>c. c \<in> set chars) s"

text \<open>
  \<open>\d\<close> in a \<open>str\<close> pattern and \<open>int()\<close> accept every Unicode decimal digit, not only
  ASCII. Each run of ten digits starts at one of the code points below (the table of the
  interpreter's Unicode database, version 14); the digit's value is its offset in the run.
  \<open>int()\<close> is taken as exact base-ten conversion of a string of digits.
\<close>

definition decimal_zeros :: "nat list" where
  "decimal_zeros = [48, 1632, 1776, 1984, 2406, 2534, 2662, 2790, 2918, 3046, 3174, 3302, 3430,
     3558, 3664, 3792, 3872, 4160, 4240, 6112, 6160, 6470, 6608, 6784, 6800, 6992, 7088, 7232,
     7248, 42528, 43216, 43264, 43472, 43504, 43600, 44016, 65296, 66720, 68912, 69734, 69872,
     69942, 70096, 70384, 70736, 70864, 71248, 71360, 71472, 71904, 72016, 72784, 73040, 73120,
     92768, 92864, 93008, 120782, 120792, 120802, 120812, 120822, 123200, 123632, 125264,
     130032]"

definition is_digit :: "nat \<Rightarrow> bool" where
  "is_digit c = list_ex (\<lambda>z. z \<le> c \<and> c < z + 10) decimal_zeros"

definition digit_value :: "nat \<Rightarrow> nat" where
  "digit_value c =
     (case filter (\<lambda>z. z \<le> c \<and> c < z + 10) decimal_zeros of z # _ \<Rightarrow> c - z | [] \<Rightarrow> 0)"

definition py_int :: "pystr \<Rightarrow> int" where
  "py_int s = int (foldl (\<lambda>acc c. 10 * acc + digit_value c) 0 s)"

text \<open>\<open>s.split(sep)\<close> for a separator of one character, and \<open>sep.join(xs)\<close>.\<close>

fun split_on :: "nat \<Rightarrow> pystr \<Rightarrow> pystr list" where
  "split_on sep [] = [[]]"
| "split_on sep (c # cs) =
     (if c = sep then [] # split_on sep cs
      else (case split_on sep cs of l # ls \<Rightarrow> (c # l) # ls | [] \<Rightarrow> [[c]]))"

fun py_join :: "pystr \<Rightarrow> pystr list \<Rightarrow> pystr" where
  "py_join sep [] = []"
| "py_join sep [x] = x"
| "py_join sep (x # y # ys) = x @ sep @ py_join sep (y # ys)"

text \<open>
  What \<open>json.load\<close> returns. A \<open>dict\<close> keeps its keys in insertion order, so it is an
  association list; \<open>d[k] = v\<close> is \<open>AList.update k v d\<close> (in place when the key is there,
  appended otherwise) and \<open>d.get(k)\<close> is \<open>map_of d k\<close>. No operation below looks inside a
  number.
\<close>

datatype json =
    JNull
  | JBool bool
  | JInt int
  | JFloat int int
  | JStr pystr
  | JList "json list"
  | JDict "(pystr \<times> json) list"

type_synonym pydict = "(pystr \<times> json) list"

text \<open>\<open>type(x).__name__\<close>\<close>

fun type_name :: "json \<Rightarrow> pystr" where
  "type_name JNull = ascii ''NoneType''"
| "type_name (JBool b) = ascii ''bool''"
| "type_name (JInt i) = ascii ''int''"
| "type_name (JFloat m e) = ascii ''float''"
| "type_name (JStr s) = ascii ''str''"
| "type_name (JList xs) = ascii ''list''"
| "type_name (JDict d) = ascii ''dict''"

text \<open>\<open>result.update(inner)\<close>\<close>

definition dict_update :: "pydict \<Rightarrow> pydict \<Rightarrow> pydict" where
  "dict_update result inner = fold (\<lambda>(k, v) acc. AList.update k v acc) inner result"

section \<open>record\_video.py: validate\_summary\<close>

definition REQUIRED_SUMMARY_FIELDS :: "pystr set" where
  "REQUIRED_SUMMARY_FIELDS = {ascii ''tldr'', ascii ''ideas'', ascii ''insights''}"

definition metadata_fields :: "pystr set" where
  "metadata_fields = {ascii ''status'', ascii ''video_id'', ascii ''title'', ascii ''channel'',
     ascii ''duration'', ascii ''views'', ascii ''likes''}"

text \<open>
  Every failure of \<open>validate_summary\<close> is a \<open>ValueError\<close>; the constructors stand for its
  five messages, in the order of the source: "Summary must be a dict, got T",
  "Summary missing required fields: M", "tldr must be a non-empty string",
  "ideas must be a list", "insights must be a list".
\<close>

datatype error =
    NotADict pystr
  | MissingFields "pystr set"
  | TldrNotNonEmptyString
  | IdeasNotList
  | InsightsNotList

text \<open>
  Lines 32 to 41: the nested-summary repair. The result is the summary the checks go on
  with, and the lines written to stderr.
\<close>

definition flatten_warning :: "pystr \<Rightarrow> pystr" where
  "flatten_warning video_id = ascii ''[WARN] Flattened nested summary structure for '' @ video_id"

definition flatten_nested :: "pydict \<Rightarrow> pystr \<Rightarrow> pydict \<times> pystr list" where
  "flatten_nested summary video_id =
     (case map_of summary (ascii ''summary'') of
        Some (JDict inner) \<Rightarrow>
          if \<exists>field \<in> REQUIRED_SUMMARY_FIELDS. map_of inner field \<noteq> None
          then (dict_update (filter (\<lambda>(k, v). k \<in> metadata_fields) summary) inner,
                [flatten_warning video_id])
          else (summary, [])
      | _ \<Rightarrow> (summary, []))"

definition is_nonempty_str :: "json option \<Rightarrow> bool" where
  "is_nonempty_str v = (case v of Some (JStr s) \<Rightarrow> py_strip s \<noteq> [] | _ \<Rightarrow> False)"

definition is_list :: "json option \<Rightarrow> bool" where
  "is_list v = (case v of Some (JList xs) \<Rightarrow> True | _ \<Rightarrow> False)"

text \<open>
  \<open>validate_summary\<close> returns the lines it wrote to stderr and either the error raised or
  the summary returned.
\<close>

definition validate_summary :: "json \<Rightarrow> pystr \<Rightarrow> pystr list \<times> (error + pydict)" where
  "validate_summary summary video_id =
     (case summary of
        JDict d \<Rightarrow>
          (let (summary, err) = flatten_nested d video_id;
               missing = REQUIRED_SUMMARY_FIELDS - fst ` set summary
           in if missing \<noteq> {} then (err, Inl (MissingFields missing))
              else if \<not> is_nonempty_str (map_of summary (ascii ''tldr''))
                then (err, Inl TldrNotNonEmptyString)
              else if \<not> is_list (map_of summary (ascii ''ideas''))
                then (err, Inl IdeasNotList)
              else if \<not> is_list (map_of summary (ascii ''insights''))
                then (err, Inl InsightsNotList)
              else (err, Inr (AList.update (ascii ''videoId'') (JStr video_id) summary)))
      | _ \<Rightarrow> ([], Inl (NotADict (type_name summary))))"

section \<open>The regular expressions of the sources\<close>

text \<open>
  The patterns are matched as the \<open>re\<close> module matches them, by backtracking: a pattern run
  from a state gives the states it can end in, in the order in which the backtracking
  matcher tries them, so the head of the list is the match that \<open>re\<close> reports. A state is
  the position, the text still to read, and the groups captured so far (latest first).
  Repetition only occurs on character classes in these sources; \<open>Star\<close> is the greedy
  \<open>c*\<close> and \<open>LazyStar\<close> the lazy \<open>c*?\<close>. \<open>Bol\<close> is \<open>^\<close> and \<open>Dollar\<close> is \<open>$\<close>, both without
  the MULTILINE flag, \<open>Eos\<close> is \<open>\Z\<close>, \<open>Look\<close> is the lookahead \<open>(?=...)\<close>.
\<close>

type_synonym mstate = "nat \<times> pystr \<times> (nat \<times> pystr) list"

datatype re =
    Sym "nat \<Rightarrow> bool"
  | Eps
  | Seq re re
  | Alt re re
  | Opt re
  | Star "nat \<Rightarrow> bool"
  | LazyStar "nat \<Rightarrow> bool"
  | Group nat re
  | Look re
  | Bol
  | Eos
  | Dollar

fun star_greedy :: "(nat \<Rightarrow> bool) \<Rightarrow> mstate \<Rightarrow> mstate list" where
  "star_greedy p (n, [], g) = [(n, [], g)]"
| "star_greedy p (n, c # cs, g) =
     (if p c then star_greedy p (Suc n, cs, g) else []) @ [(n, c # cs, g)]"

fun star_lazy :: "(nat \<Rightarrow> bool) \<Rightarrow> mstate \<Rightarrow> mstate list" where
  "star_lazy p (n, [], g) = [(n, [], g)]"
| "star_lazy p (n, c # cs, g) =
     (n, c # cs, g) # (if p c then star_lazy p (Suc n, cs, g) else [])"

fun rmatch :: "re \<Rightarrow> mstate \<Rightarrow> mstate list" where
  "rmatch (Sym p) (n, cs, g) =
     (case cs of [] \<Rightarrow> [] | c # cs' \<Rightarrow> if p c then [(Suc n, cs', g)] else [])"
| "rmatch Eps s = [s]"
| "rmatch (Seq a b) s = concat (map (rmatch b) (rmatch a s))"
| "rmatch (Alt a b) s = rmatch a s @ rmatch b s"
| "rmatch (Opt a) s = rmatch a s @ [s]"
| "rmatch (Star p) s = star_greedy p s"
| "rmatch (LazyStar p) s = star_lazy p s"
| "rmatch (Group k a) (n, cs, g) =
     map (\<lambda>(n', cs', g'). (n', cs', (k, take (n' - n) cs) # g')) (rmatch a (n, cs, g))"
| "rmatch (Look a) s = (if rmatch a s = [] then [] else [s])"
| "rmatch Bol (n, cs, g) = (if n = 0 then [(n, cs, g)] else [])"
| "rmatch Eos (n, cs, g) = (if cs = [] then [(n, cs, g)] else [])"
| "rmatch Dollar (n, cs, g) = (if cs = [] \<or> cs = [10] then [(n, cs, g)] else [])"

text \<open>\<open>re.search\<close>: the first match at the leftmost position that has one.\<close>

fun search_from :: "re \<Rightarrow> nat \<Rightarrow> pystr \<Rightarrow> mstate option" where
  "search_from r n cs =
     (case rmatch r (n, cs, []) of
        m # _ \<Rightarrow> Some m
      | [] \<Rightarrow> (case cs of [] \<Rightarrow> None | _ # cs' \<Rightarrow> search_from r (Suc n) cs'))"

definition re_search :: "re \<Rightarrow> pystr \<Rightarrow> mstate option" where
  "re_search r text = search_from r 0 text"

text \<open>\<open>m.group(k)\<close>; every group of these patterns takes part in every match.\<close>

definition group :: "mstate \<Rightarrow> nat \<Rightarrow> pystr" where
  "group m k = (case map_of (snd (snd m)) k of Some s \<Rightarrow> s | None \<Rightarrow> [])"

text \<open>
  \<open>re.sub(pattern, '', text)\<close> and \<open>re.findall(pattern, text)\<close> for a pattern with one
  group scan the text from left to right; the next match is looked for where the last one
  ended, and after an empty match only a non-empty match may start at the same position
  (the flag \<open>adv\<close>).
\<close>

function re_sub_empty :: "re \<Rightarrow> bool \<Rightarrow> nat \<Rightarrow> pystr \<Rightarrow> pystr" where
  "re_sub_empty r adv n cs =
     (case filter (\<lambda>(n', cs', g). \<not> adv \<or> length cs' < length cs) (rmatch r (n, cs, [])) of
        (n', cs', g) # _ \<Rightarrow>
          if length cs' < length cs then re_sub_empty r False n' cs'
          else re_sub_empty r True n cs
      | [] \<Rightarrow> (case cs of [] \<Rightarrow> [] | c # cs' \<Rightarrow> c # re_sub_empty r False (Suc n) cs'))"
  by pat_completeness auto
termination
  apply (relation "measure (\<lambda>(r, adv, n, cs). 2 * length cs + (if adv then 0 else 1))")
  apply (auto simp: filter_eq_Cons_iff)
  done

definition re_sub :: "re \<Rightarrow> pystr \<Rightarrow> pystr" where
  "re_sub r text = re_sub_empty r False 0 text"

function findall_from :: "re \<Rightarrow> bool \<Rightarrow> nat \<Rightarrow> pystr \<Rightarrow> pystr list" where
  "findall_from r adv n cs =
     (case filter (\<lambda>(n', cs', g). \<not> adv \<or> length cs' < length cs) (rmatch r (n, cs, [])) of
        (n', cs', g) # _ \<Rightarrow>
          group (n', cs', g) 1 #
            (if length cs' < length cs then findall_from r False n' cs'
             else findall_from r True n cs)
      | [] \<Rightarrow> (case cs of [] \<Rightarrow> [] | c # cs' \<Rightarrow> findall_from r False (Suc n) cs'))"
  by pat_completeness auto
termination
  apply (relation "measure (\<lambda>(r, adv, n, cs). 2 * length cs + (if adv then 0 else 1))")
  apply (auto simp: filter_eq_Cons_iff)
  done

text \<open>
  The two scanning functions are unfolded by hand in the proofs, one step at a time.
\<close>

declare re_sub_empty.simps [simp del] findall_from.simps [simp del]

definition re_findall :: "re \<Rightarrow> pystr \<Rightarrow> pystr list" where
  "re_findall r text = findall_from r False 0 text"

text \<open>
  Building blocks: a literal character, \<open>c+\<close> and \<open>c+?\<close>, a sequence, a literal string, and
  a literal string under IGNORECASE. \<open>ieq c\<close> is what the upper-case ASCII letter \<open>c\<close>
  matches under IGNORECASE: itself, its lower case, and the extra code points U+0130 and
  U+0131 for I, U+017F for S, U+212A for K.
\<close>

definition lit :: "nat \<Rightarrow> re" where
  "lit c = Sym (\<lambda>x. x = c)"

definition Rep1 :: "(nat \<Rightarrow> bool) \<Rightarrow> re" where
  "Rep1 p = Seq (Sym p) (Star p)"

definition LazyRep1 :: "(nat \<Rightarrow> bool) \<Rightarrow> re" where
  "LazyRep1 p = Seq (Sym p) (LazyStar p)"

definition seqs :: "re list \<Rightarrow> re" where
  "seqs rs = foldr Seq rs Eps"

definition lits :: "pystr \<Rightarrow> re list" where
  "lits s = map lit s"

definition ieq :: "nat \<Rightarrow> nat \<Rightarrow> bool" where
  "ieq c x = (x = c \<or> x = c + 32 \<or> (c = 73 \<and> (x = 304 \<or> x = 305)) \<or> (c = 83 \<and> x = 383)
     \<or> (c = 75 \<and> x = 8490))"

definition ilits :: "pystr \<Rightarrow> re list" where
  "ilits s = map (\<lambda>c. Sym (ieq c)) s"

definition any_char :: "nat \<Rightarrow> bool" where
  "any_char c = True"

definition not_newline :: "nat \<Rightarrow> bool" where
  "not_newline c = (c \<noteq> 10)"

definition is_newline :: "nat \<Rightarrow> bool" where
  "is_newline c = (c = 10)"

definition colon_or_space :: "nat \<Rightarrow> bool" where
  "colon_or_space c = (c = 58 \<or> is_space c)"

definition is_bullet :: "nat \<Rightarrow> bool" where
  "is_bullet c = (c = 45 \<or> c = 42 \<or> c = 8226)"

section \<open>import\_summaries.py: parse\_markdown\_summary\<close>

text \<open>
  Line 18, flags IGNORECASE and DOTALL:
  \<^verbatim>\<open>(?:^|\n)(?:>?\s*\*?\*?SUMMARY\*?\*?|# SUMMARY)\s*\n+>?\s*(.+?)(?=\n\n|\n#)\<close>
\<close>

definition SUMMARY_RE :: re where
  "SUMMARY_RE = seqs
     [Alt Bol (lit 10),
      Alt (seqs ([Opt (lit 62), Star is_space, Opt (lit 42), Opt (lit 42)]
                 @ ilits (ascii ''SUMMARY'') @ [Opt (lit 42), Opt (lit 42)]))
          (seqs ([lit 35, lit 32] @ ilits (ascii ''SUMMARY''))),
      Star is_space, Rep1 is_newline, Opt (lit 62), Star is_space,
      Group 1 (LazyRep1 any_char),
      Look (Alt (seqs [lit 10, lit 10]) (seqs [lit 10, lit 35]))]"

text \<open>
  Lines 23, 42, 55 and 71, flag IGNORECASE, are one pattern up to the emoji and the name:
  \<^verbatim>\<open>#\s*(?:E\s*)?NAME[:\s]*\n+([\s\S]+?)(?=\n#|\Z)\<close>
  The emoji of IDEAS, INSIGHTS and FACTS are U+1F4A1, U+1F9E0 and U+1F9EA; that of QUOTES
  is the two code points U+1F5E3 U+FE0F.
\<close>

definition section_re :: "pystr \<Rightarrow> pystr \<Rightarrow> re" where
  "section_re emoji name = seqs
     ([lit 35, Star is_space, Opt (seqs (lits emoji @ [Star is_space]))] @ ilits name
      @ [Star colon_or_space, Rep1 is_newline,
         Group 1 (LazyRep1 any_char),
         Look (Alt (seqs [lit 10, lit 35]) Eos)])"

definition IDEAS_RE :: re where
  "IDEAS_RE = section_re [0x1F4A1] (ascii ''IDEAS'')"

definition INSIGHTS_RE :: re where
  "INSIGHTS_RE = section_re [0x1F9E0] (ascii ''INSIGHTS'')"

definition QUOTES_RE :: re where
  "QUOTES_RE = section_re [0x1F5E3, 0xFE0F] (ascii ''QUOTES'')"

definition FACTS_RE :: re where
  "FACTS_RE = section_re [0x1F9EA] (ascii ''FACTS'')"

text \<open>
  Line 83, flag IGNORECASE only, so that \<open>.\<close> does not match a newline:
  \<^verbatim>\<open>#\s*(?:E\s*)?(?:ONE[- ]SENTENCE\s*)?TAKEAWAY[:\s]*\n+(.+?)(?=\n#|\n\n|\Z)\<close>
  with the emoji U+1F680.
\<close>

definition TAKEAWAY_RE :: re where
  "TAKEAWAY_RE = seqs
     ([lit 35, Star is_space, Opt (seqs [lit 0x1F680, Star is_space]),
       Opt (seqs (ilits (ascii ''ONE'') @ [Sym (\<lambda>c. c = 45 \<or> c = 32)]
                  @ ilits (ascii ''SENTENCE'') @ [Star is_space]))]
      @ ilits (ascii ''TAKEAWAY'')
      @ [Star colon_or_space, Rep1 is_newline,
         Group 1 (LazyRep1 not_newline),
         Look (Alt (seqs [lit 10, lit 35]) (Alt (seqs [lit 10, lit 10]) Eos))])"

text \<open>
  The patterns of the line loops, all without flags:
  \<^verbatim>\<open>^[-*o]\s*\<close> (where o stands for the bullet U+2022),
  \<^verbatim>\<open>\[\[?(\d+):(\d+)\]?\]\<close>,
  \<^verbatim>\<open>\s*\[\[?\d+:\d+\]?\]\([^)]+\)\<close>,
  \<^verbatim>\<open>\s*-\s*Speaker.*$\<close> and
  \<^verbatim>\<open>\s*\[\d+:\d+\].*$\<close>.
\<close>

definition BULLET_RE :: re where
  "BULLET_RE = seqs [Bol, Sym is_bullet, Star is_space]"

definition TIMESTAMP_RE :: re where
  "TIMESTAMP_RE = seqs [lit 91, Opt (lit 91), Group 1 (Rep1 is_digit), lit 58,
     Group 2 (Rep1 is_digit), Opt (lit 93), lit 93]"

definition TIMESTAMP_LINK_RE :: re where
  "TIMESTAMP_LINK_RE = seqs [Star is_space, lit 91, Opt (lit 91), Rep1 is_digit, lit 58,
     Rep1 is_digit, Opt (lit 93), lit 93, lit 40, Rep1 (\<lambda>c. c \<noteq> 41), lit 41]"

definition SPEAKER_RE :: re where
  "SPEAKER_RE = seqs ([Star is_space, lit 45, Star is_space] @ lits (ascii ''Speaker'')
     @ [Star not_newline, Dollar])"

definition QUOTE_TIMESTAMP_RE :: re where
  "QUOTE_TIMESTAMP_RE = seqs [Star is_space, lit 91, Rep1 is_digit, lit 58, Rep1 is_digit,
     lit 93, Star not_newline, Dollar]"

text \<open>\<open>line.startswith(('-', '*', bullet))\<close>\<close>

definition startswith_bullet :: "pystr \<Rightarrow> bool" where
  "startswith_bullet line = (case line of [] \<Rightarrow> False | c # _ \<Rightarrow> is_bullet c)"

text \<open>
  An idea is the dict \<open>{"text": ..., "timestamp": ...}\<close> that the parser builds; the
  visualisation code also accepts a bare string in its place (\<open>isinstance(i, dict)\<close>).
\<close>

datatype idea = IdeaDict pystr "int option" | IdeaStr pystr

text \<open>
  Lines 30 to 38: the dict appended for one bullet item, from its text after the marker.
\<close>

definition idea_of_text :: "pystr \<Rightarrow> idea" where
  "idea_of_text text =
     (case re_search TIMESTAMP_RE text of
        Some ts_match \<Rightarrow>
          (let mins = py_int (group ts_match 1); secs = py_int (group ts_match 2);
               timestamp = mins * 60 + secs;
               text = py_strip (re_sub TIMESTAMP_LINK_RE text)
           in IdeaDict text (Some timestamp))
      | None \<Rightarrow> IdeaDict text None)"

text \<open>
  The four \<open>for line in ...\<close> loops (lines 26 to 38, 45 to 51, 58 to 67 and 74 to 79); the
  second argument is the list being appended to.
\<close>

fun ideas_loop :: "pystr list \<Rightarrow> idea list \<Rightarrow> idea list" where
  "ideas_loop [] ideas = ideas"
| "ideas_loop (line # rest) ideas =
     (let line = py_strip line in
      if startswith_bullet line then
        (let text = re_sub BULLET_RE line
         in ideas_loop rest (ideas @ [idea_of_text text]))
      else ideas_loop rest ideas)"

fun insights_loop :: "pystr list \<Rightarrow> pystr list \<Rightarrow> pystr list" where
  "insights_loop [] insights = insights"
| "insights_loop (line # rest) insights =
     (let line = py_strip line in
      if startswith_bullet line then
        (let text = re_sub BULLET_RE line;
             text = py_strip (re_sub TIMESTAMP_LINK_RE text)
         in if text \<noteq> [] then insights_loop rest (insights @ [text])
            else insights_loop rest insights)
      else insights_loop rest insights)"

fun quotes_loop :: "pystr list \<Rightarrow> pystr list \<Rightarrow> pystr list" where
  "quotes_loop [] quotes = quotes"
| "quotes_loop (line # rest) quotes =
     (let line = py_strip line in
      if startswith_bullet line then
        (let text = re_sub BULLET_RE line;
             text = re_sub SPEAKER_RE text;
             text = re_sub QUOTE_TIMESTAMP_RE text;
             text = strip_chars [34, 39] text
         in if text \<noteq> [] then quotes_loop rest (quotes @ [text])
            else quotes_loop rest quotes)
      else quotes_loop rest quotes)"

fun facts_loop :: "pystr list \<Rightarrow> pystr list \<Rightarrow> pystr list" where
  "facts_loop [] facts = facts"
| "facts_loop (line # rest) facts =
     (let line = py_strip line in
      if startswith_bullet line then
        (let text = py_strip (re_sub BULLET_RE line)
         in if text \<noteq> [] then facts_loop rest (facts @ [text])
            else facts_loop rest facts)
      else facts_loop rest facts)"

text \<open>\<open>m.group(1).strip().split('\n')\<close>\<close>

definition section_lines :: "mstate \<Rightarrow> pystr list" where
  "section_lines m = split_on 10 (py_strip (group m 1))"

text \<open>
  The summary dict and what the visualisation stage adds to it. A key that is absent is
  \<open>None\<close>; \<open>get_list\<close> and \<open>get_str\<close> are \<open>summary.get(key, [])\<close> and \<open>summary.get(key, '')\<close>.
\<close>

datatype branch = Branch pystr "pystr list"

datatype mindmap = Mindmap pystr "branch list"

datatype stat = Stat pystr pystr

record viz_data =
  mindmap :: "mindmap option"
  stats :: "stat list option"

record summary =
  videoId :: "pystr option"
  tldr :: "pystr option"
  ideas :: "idea list option"
  insights :: "pystr list option"
  quotes :: "pystr list option"
  facts :: "pystr list option"
  takeaway :: "pystr option"
  viz_data :: "viz_data option"
  suggested_viz :: "pystr list option"

definition empty_summary :: summary where
  "empty_summary = \<lparr>videoId = None, tldr = None, ideas = None, insights = None, quotes = None,
     facts = None, takeaway = None, viz_data = None, suggested_viz = None\<rparr>"

definition get_list :: "'a list option \<Rightarrow> 'a list" where
  "get_list v = (case v of Some xs \<Rightarrow> xs | None \<Rightarrow> [])"

definition get_str :: "pystr option \<Rightarrow> pystr" where
  "get_str v = (case v of Some s \<Rightarrow> s | None \<Rightarrow> [])"

definition parse_markdown_summary :: "pystr \<Rightarrow> pystr \<Rightarrow> summary" where
  "parse_markdown_summary content video_id =
     (let summary = empty_summary\<lparr>videoId := Some video_id\<rparr>;
          summary = (case re_search SUMMARY_RE content of
                       Some tldr_match \<Rightarrow>
                         summary\<lparr>tldr := Some (strip_chars [62] (py_strip (group tldr_match 1)))\<rparr>
                     | None \<Rightarrow> summary);
          summary = (case re_search IDEAS_RE content of
                       Some ideas_match \<Rightarrow>
                         summary\<lparr>ideas := Some (take 15 (ideas_loop (section_lines ideas_match) []))\<rparr>
                     | None \<Rightarrow> summary);
          summary = (case re_search INSIGHTS_RE content of
                       Some insights_match \<Rightarrow>
                         summary\<lparr>insights :=
                           Some (take 10 (insights_loop (section_lines insights_match) []))\<rparr>
                     | None \<Rightarrow> summary);
          summary = (case re_search QUOTES_RE content of
                       Some quotes_match \<Rightarrow>
                         summary\<lparr>quotes := Some (take 5 (quotes_loop (section_lines quotes_match) []))\<rparr>
                     | None \<Rightarrow> summary);
          summary = (case re_search FACTS_RE content of
                       Some facts_match \<Rightarrow>
                         summary\<lparr>facts := Some (take 8 (facts_loop (section_lines facts_match) []))\<rparr>
                     | None \<Rightarrow> summary);
          summary = (case re_search TAKEAWAY_RE content of
                       Some takeaway_match \<Rightarrow>
                         summary\<lparr>takeaway := Some (py_strip (group takeaway_match 1))\<rparr>
                     | None \<Rightarrow> summary)
      in summary)"

text \<open>
  Lines 100 to 122 of \<open>main\<close>. An entry of the summary directory is a \<open>.md\<close> file (its
  stem and its text), a directory (its name and the text of its \<open>summary.txt\<close>, if there
  is one) or anything else. A stored video has an \<open>id\<close>, maybe a \<open>summary\<close> and an
  \<open>insights_count\<close>, and other keys that the code does not touch. \<open>video_map\<close> is the dict
  comprehension of line 95, where a later video with the same id wins. What \<open>main\<close> prints
  is left out.
\<close>

datatype item = MdFile pystr pystr | Dir pystr "pystr option" | OtherItem

record video =
  id_v :: pystr
  summary_v :: "summary option"
  insights_count :: "int option"

definition video_map :: "video list \<Rightarrow> pystr \<Rightarrow> nat option" where
  "video_map videos = map_of (rev (zip (map id_v videos) [0..<length videos]))"

definition item_video_id :: "item \<Rightarrow> pystr option" where
  "item_video_id it =
     (case it of
        MdFile stem text \<Rightarrow> (case split_on 95 stem of v # _ \<Rightarrow> Some v | [] \<Rightarrow> None)
      | Dir name text \<Rightarrow> Some name
      | OtherItem \<Rightarrow> None)"

definition item_content :: "item \<Rightarrow> pystr option" where
  "item_content it =
     (case it of MdFile stem text \<Rightarrow> Some text | Dir name text \<Rightarrow> text | OtherItem \<Rightarrow> None)"

definition summary_falsy :: "summary option \<Rightarrow> bool" where
  "summary_falsy v = (case v of None \<Rightarrow> True | Some s \<Rightarrow> s = empty_summary)"

definition import_item :: "(pystr \<Rightarrow> nat option) \<Rightarrow> item \<Rightarrow> video list \<Rightarrow> video list" where
  "import_item vmap it videos =
     (case (item_video_id it, item_content it) of
        (Some video_id, Some content) \<Rightarrow>
          if video_id \<noteq> [] \<and> content \<noteq> [] then
            (case vmap video_id of
               Some idx \<Rightarrow>
                 if summary_falsy (summary_v (videos ! idx)) then
                   (let summary = parse_markdown_summary content video_id in
                    if get_list (ideas summary) \<noteq> [] \<or> get_list (insights summary) \<noteq> [] then
                      videos[idx := (videos ! idx)
                        \<lparr>summary_v := Some summary,
                         insights_count := Some (int (length (get_list (ideas summary))))\<rparr>]
                    else videos)
                 else videos
             | None \<Rightarrow> videos)
          else videos
      | _ \<Rightarrow> videos)"

definition import_main :: "item list \<Rightarrow> video list \<Rightarrow> video list" where
  "import_main items videos = fold (import_item (video_map videos)) items videos"

section \<open>generate\_viz.py\<close>

definition idea_text :: "idea \<Rightarrow> pystr" where
  "idea_text i = (case i of IdeaDict t ts \<Rightarrow> t | IdeaStr s \<Rightarrow> s)"

text \<open>
  The labels of the branches and the fallback root are Chinese strings in the source, here
  by code point: U+6838 U+5FC3 U+89C2 U+70B9 (core viewpoints), U+5173 U+952E U+8BBA U+636E
  (key arguments), U+5EF6 U+4F38 U+601D U+8003 (further reflections), U+6DF1 U+5EA6 U+6D1E
  U+5BDF (deep insights), U+6838 U+5FC3 U+7ED3 U+8BBA (core conclusion) and U+89C6 U+9891
  U+603B U+7ED3 (video summary).
\<close>

definition label_core_viewpoints :: pystr where
  "label_core_viewpoints = [0x6838, 0x5FC3, 0x89C2, 0x70B9]"

definition label_key_arguments :: pystr where
  "label_key_arguments = [0x5173, 0x952E, 0x8BBA, 0x636E]"

definition label_further_reflections :: pystr where
  "label_further_reflections = [0x5EF6, 0x4F38, 0x601D, 0x8003]"

definition label_deep_insights :: pystr where
  "label_deep_insights = [0x6DF1, 0x5EA6, 0x6D1E, 0x5BDF]"

definition label_core_conclusion :: pystr where
  "label_core_conclusion = [0x6838, 0x5FC3, 0x7ED3, 0x8BBA]"

definition label_video_summary :: pystr where
  "label_video_summary = [0x89C6, 0x9891, 0x603B, 0x7ED3]"

text \<open>\<open>xs[a:b]\<close> for \<open>0 \<le> a\<close> and \<open>0 \<le> b\<close>.\<close>

definition slice :: "nat \<Rightarrow> nat \<Rightarrow> 'a list \<Rightarrow> 'a list" where
  "slice a b xs = drop a (take b xs)"

definition generate_mindmap :: "summary \<Rightarrow> mindmap" where
  "generate_mindmap summary =
     (let ideas = get_list (ideas summary);
          insights = get_list (insights summary);
          takeaway = get_str (takeaway summary);
          tldr = get_str (tldr summary);
          idea_texts = map idea_text ideas;
          children =
            (if length idea_texts \<ge> 3 then
               (let third = length idea_texts div 3 in
                [Branch label_core_viewpoints (take 3 (take third idea_texts)),
                 Branch label_key_arguments (take 3 (slice third (2 * third) idea_texts)),
                 Branch label_further_reflections (take 3 (drop (2 * third) idea_texts))])
             else []);
          children = (if insights \<noteq> [] then children @ [Branch label_deep_insights (take 3 insights)]
                      else children);
          children = (if takeaway \<noteq> [] then children @ [Branch label_core_conclusion [takeaway]]
                      else children);
          root = (if length tldr > 30 then take 30 tldr @ ascii ''...''
                  else if tldr \<noteq> [] then tldr else label_video_summary)
      in Mindmap root children)"

text \<open>
  The six patterns of \<open>extract_stats\<close> with their suffixes. Four of them are
  \<^verbatim>\<open>(\d+(?:\.\d+)?)\s*U\<close> for a unit U (U+4E07, U+4EBF, the percent sign and U+500D); the
  other two are \<^verbatim>\<open>\$(\d+(?:\.\d+)?[KMB]?)\<close> and \<^verbatim>\<open>(\d+(?:-\d+)?)\s*U\<close> with U = U+5E74.
\<close>

definition unit_re :: "nat \<Rightarrow> re" where
  "unit_re u = seqs [Group 1 (seqs [Rep1 is_digit, Opt (seqs [lit 46, Rep1 is_digit])]),
     Star is_space, lit u]"

definition dollar_re :: re where
  "dollar_re = seqs [lit 36,
     Group 1 (seqs [Rep1 is_digit, Opt (seqs [lit 46, Rep1 is_digit]),
                    Opt (Sym (\<lambda>c. c = 75 \<or> c = 77 \<or> c = 66))])]"

definition year_re :: re where
  "year_re = seqs [Group 1 (seqs [Rep1 is_digit, Opt (seqs [lit 45, Rep1 is_digit])]),
     Star is_space, lit 0x5E74]"

definition patterns :: "(re \<times> pystr) list" where
  "patterns = [(unit_re 0x4E07, [0x4E07]), (unit_re 0x4EBF, [0x4EBF]), (unit_re 37, [37]),
     (dollar_re, [36]), (year_re, [0x5E74]), (unit_re 0x500D, [0x500D])]"

text \<open>Line 85, and lines 86 to 90 as a step on the pair of \<open>stats\<close> and \<open>seen\<close>.\<close>

definition stat_val :: "pystr \<Rightarrow> pystr \<Rightarrow> pystr" where
  "stat_val m suffix' = (if suffix' \<noteq> [36] then m @ suffix' else [36] @ m)"

definition add_stat :: "pystr \<Rightarrow> pystr \<Rightarrow> stat list \<times> pystr set \<Rightarrow> stat list \<times> pystr set" where
  "add_stat text val st =
     (case st of (stats', seen) \<Rightarrow>
        if val \<notin> seen \<and> length stats' < 6
        then (stats' @ [Stat val (py_strip (take 20 text))], insert val seen)
        else (stats', seen))"

definition all_text_of :: "summary \<Rightarrow> pystr list" where
  "all_text_of summary = get_list (facts summary) @ map idea_text (get_list (ideas summary))"

definition stats_loop :: "pystr list \<Rightarrow> stat list \<times> pystr set \<Rightarrow> stat list \<times> pystr set" where
  "stats_loop all_text st =
     fold (\<lambda>text. fold (\<lambda>(pattern, suffix').
             fold (\<lambda>m. add_stat text (stat_val m suffix')) (re_findall pattern text)) patterns)
       all_text st"

definition extract_stats :: "summary \<Rightarrow> stat list" where
  "extract_stats summary = take 6 (fst (stats_loop (all_text_of summary) ([], {})))"

text \<open>
  The keywords of \<open>detect_comparison\<close>: vs, VS, and ten Chinese words of two characters.
  \<open>kw in all_text\<close> is \<open>sublist kw all_text\<close>.
\<close>

definition comparison_keywords :: "pystr list" where
  "comparison_keywords = [ascii ''vs'', ascii ''VS'', [0x5BF9, 0x6BD4], [0x76F8, 0x6BD4],
     [0x4F18, 0x52BF], [0x52A3, 0x52BF], [0x4F20, 0x7EDF], [0x65B0, 0x578B], [0x5730, 0x9762],
     [0x592A, 0x7A7A], [0x4E4B, 0x524D], [0x4E4B, 0x540E]]"

definition detect_comparison :: "summary \<Rightarrow> bool" where
  "detect_comparison summary =
     (let all_text = py_join [32] (map idea_text (get_list (ideas summary)))
      in list_ex (\<lambda>kw. sublist kw all_text) comparison_keywords)"

definition mindmap_children :: "mindmap \<Rightarrow> branch list" where
  "mindmap_children m = (case m of Mindmap root children \<Rightarrow> children)"

definition generate_viz_data :: "summary \<Rightarrow> viz_data \<times> pystr list" where
  "generate_viz_data summary =
     (let viz = \<lparr>mindmap = None, stats = None\<rparr>;
          suggested = [];
          m = generate_mindmap summary;
          viz = (if mindmap_children m \<noteq> [] then viz\<lparr>mindmap := Some m\<rparr> else viz);
          st = extract_stats summary;
          viz = (if st \<noteq> [] then viz\<lparr>stats := Some st\<rparr> else viz);
          suggested = (if st \<noteq> [] then suggested @ [ascii ''stats''] else suggested);
          suggested = (if detect_comparison summary then suggested @ [ascii ''comparison'']
                       else suggested)
      in (viz, suggested))"

text \<open>
  The body of the loop of \<open>main\<close> (lines 129 to 147) on one video, and the loop. A dict is
  true when it has a key.
\<close>

definition viz_truthy :: "viz_data \<Rightarrow> bool" where
  "viz_truthy v = (v \<noteq> \<lparr>mindmap = None, stats = None\<rparr>)"

definition generate_viz_video :: "video \<Rightarrow> video" where
  "generate_viz_video video =
     (let summary = (case summary_v video of Some s \<Rightarrow> s | None \<Rightarrow> empty_summary) in
      if (case viz_data summary of Some v \<Rightarrow> viz_truthy v | None \<Rightarrow> False) then video
      else if get_list (ideas summary) = [] \<and> get_list (insights summary) = [] then video
      else
        (case generate_viz_data summary of (viz, suggested) \<Rightarrow>
           if viz_truthy viz then
             video\<lparr>summary_v := Some (summary
               \<lparr>viz_data := Some viz,
                suggested_viz := (if suggested \<noteq> [] then Some suggested
                                  else suggested_viz summary)\<rparr>)\<rparr>
           else video))"

definition generate_viz_main :: "video list \<Rightarrow> video list" where
  "generate_viz_main videos = map generate_viz_video videos"

text \<open>
  For the claim on stat extraction, its words as definitions: the candidates are the values
  matched, in scan order (text by text, pattern by pattern, match by match), each with the
  text it was found in; \<open>first_occurrences\<close> keeps the first candidate of every value.
\<close>

definition stat_candidates :: "pystr list \<Rightarrow> (pystr \<times> pystr) list" where
  "stat_candidates all_text =
     concat (map (\<lambda>text. concat (map (\<lambda>(pattern, suffix').
        map (\<lambda>m. (stat_val m suffix', text)) (re_findall pattern text)) patterns)) all_text)"

fun first_occurrences :: "(pystr \<times> pystr) list \<Rightarrow> pystr set \<Rightarrow> (pystr \<times> pystr) list" where
  "first_occurrences [] seen = []"
| "first_occurrences ((v, t) # xs) seen =
     (if v \<in> seen then first_occurrences xs seen
      else (v, t) # first_occurrences xs (insert v seen))"

definition stat_of :: "pystr \<times> pystr \<Rightarrow> stat" where
  "stat_of c = (case c of (v, t) \<Rightarrow> Stat v (py_strip (take 20 t)))"

definition stat_value :: "stat \<Rightarrow> pystr" where
  "stat_value s = (case s of Stat v l \<Rightarrow> v)"

section \<open>Notions used in the statements and their proofs\<close>

text \<open>
  \<open>first_match r s m\<close>: run from the state \<open>s\<close>, the pattern \<open>r\<close> matches, and \<open>m\<close> is the
  match that the backtracking matcher reports.
\<close>

definition first_match :: "re \<Rightarrow> mstate \<Rightarrow> mstate \<Rightarrow> bool" where
  "first_match r s m = (\<exists>ms. rmatch r s = m # ms)"

text \<open>
  For the claim on timestamps, its words as a definition: a text starts with a timestamp
  token when it is an opening bracket, maybe doubled, then one or more digits, a colon,
  one or more digits, and a closing bracket (which a second closing bracket may follow).
\<close>

definition timestamp_token_at :: "pystr \<Rightarrow> bool" where
  "timestamp_token_at cs =
     (\<exists>ob mm ss post. cs = [91] @ ob @ mm @ [58] @ ss @ [93] @ post
        \<and> (ob = [] \<or> ob = [91])
        \<and> mm \<noteq> [] \<and> list_all is_digit mm \<and> ss \<noteq> [] \<and> list_all is_digit ss)"

section \<open>Properties of validate\_summary\<close>

lemma is_nonempty_str_key: "is_nonempty_str (map_of s k) \<Longrightarrow> k \<in> fst ` set s"
  by (auto simp: is_nonempty_str_def split: option.splits dest: map_of_SomeD intro: rev_image_eqI)

lemma is_list_key: "is_list (map_of s k) \<Longrightarrow> k \<in> fst ` set s"
  by (auto simp: is_list_def split: option.splits dest: map_of_SomeD intro: rev_image_eqI)

lemma checks_imply_no_missing:
  assumes "is_nonempty_str (map_of post (ascii ''tldr''))"
    and "is_list (map_of post (ascii ''ideas''))"
    and "is_list (map_of post (ascii ''insights''))"
  shows "REQUIRED_SUMMARY_FIELDS - fst ` set post = {}"
  using assms by (auto simp: REQUIRED_SUMMARY_FIELDS_def dest: is_nonempty_str_key is_list_key)

lemma map_of_dict_update:
  "distinct (map fst inner) \<Longrightarrow>
   map_of (dict_update result inner) k =
     (case map_of inner k of Some v \<Rightarrow> Some v | None \<Rightarrow> map_of result k)"
  unfolding dict_update_def
proof (induction inner arbitrary: result)
  case Nil
  then show ?case by simp
next
  case (Cons p inner)
  obtain k' v' where p: "p = (k', v')" by (cases p)
  from Cons.prems p have notin: "map_of inner k' = None" and dist: "distinct (map fst inner)"
    by (auto simp: map_of_eq_None_iff)
  show ?case using Cons.IH[OF dist] notin p
    by (auto simp: update_conv' split: option.splits)
qed

lemma map_of_filter_keys:
  "map_of (filter (\<lambda>(k, v). P k) d) k = (if P k then map_of d k else None)"
  by (induction d) auto

text \<open>
  C1. \<open>validate_summary\<close> returns a summary exactly when the candidate is a dict whose
  \<open>tldr\<close>, after the nested-summary repair, is a string that is non-empty once stripped and
  whose \<open>ideas\<close> and \<open>insights\<close> are lists (possibly empty). The summary returned is the
  repaired one with \<open>videoId\<close> set to the video id, whatever was stored under that key.
  Every other candidate raises, and the error raised names a check that fails: not a dict
  (with the type's name), the set of required keys that are missing, or the field that has
  the wrong shape.
\<close>

theorem validate_summary_contract:
  "((\<exists>r. snd (validate_summary c video_id) = Inr r) \<longleftrightarrow>
      (\<exists>d. c = JDict d
          \<and> is_nonempty_str (map_of (fst (flatten_nested d video_id)) (ascii ''tldr''))
          \<and> is_list (map_of (fst (flatten_nested d video_id)) (ascii ''ideas''))
          \<and> is_list (map_of (fst (flatten_nested d video_id)) (ascii ''insights''))))
   \<and> (case snd (validate_summary c video_id) of
        Inr r \<Rightarrow>
          (\<exists>d. c = JDict d
              \<and> r = AList.update (ascii ''videoId'') (JStr video_id) (fst (flatten_nested d video_id)))
          \<and> map_of r (ascii ''videoId'') = Some (JStr video_id)
      | Inl e \<Rightarrow>
         (case e of
            NotADict t \<Rightarrow> (\<forall>d. c \<noteq> JDict d) \<and> t = type_name c
          | MissingFields m \<Rightarrow> m \<noteq> {} \<and>
              (\<exists>d. c = JDict d
                  \<and> m = REQUIRED_SUMMARY_FIELDS - fst ` set (fst (flatten_nested d video_id)))
          | TldrNotNonEmptyString \<Rightarrow>
              (\<exists>d. c = JDict d
                  \<and> \<not> is_nonempty_str (map_of (fst (flatten_nested d video_id)) (ascii ''tldr'')))
          | IdeasNotList \<Rightarrow>
              (\<exists>d. c = JDict d
                  \<and> \<not> is_list (map_of (fst (flatten_nested d video_id)) (ascii ''ideas'')))
          | InsightsNotList \<Rightarrow>
              (\<exists>d. c = JDict d
                  \<and> \<not> is_list (map_of (fst (flatten_nested d video_id)) (ascii ''insights'')))))"
proof (cases c)
  case (JDict d)
  obtain post err where fl: "flatten_nested d video_id = (post, err)"
    by (cases "flatten_nested d video_id")
  show ?thesis
  proof (cases "is_nonempty_str (map_of post (ascii ''tldr'')) \<and> is_list (map_of post (ascii ''ideas''))
       \<and> is_list (map_of post (ascii ''insights''))")
    case True
    then have "REQUIRED_SUMMARY_FIELDS - fst ` set post = {}"
      by (simp add: checks_imply_no_missing)
    then show ?thesis using JDict fl True
      by (simp add: validate_summary_def update_conv')
  next
    case False
    then show ?thesis using JDict fl
      by (auto simp: validate_summary_def Let_def)
  qed
qed (simp_all add: validate_summary_def)

theorem validate_summary_contract_witness:
  "snd (validate_summary
      (JDict [(ascii ''videoId'', JStr (ascii ''old'')), (ascii ''tldr'', JStr (ascii '' x '')),
              (ascii ''ideas'', JList []), (ascii ''insights'', JList [])]) (ascii ''v1''))
   = Inr [(ascii ''videoId'', JStr (ascii ''v1'')), (ascii ''tldr'', JStr (ascii '' x '')),
          (ascii ''ideas'', JList []), (ascii ''insights'', JList [])]"
  using validate_summary_contract [of
      "JDict [(ascii ''videoId'', JStr (ascii ''old'')), (ascii ''tldr'', JStr (ascii '' x '')),
              (ascii ''ideas'', JList []), (ascii ''insights'', JList [])]" "ascii ''v1''"]
  by (simp add: validate_summary_def flatten_nested_def ascii_def REQUIRED_SUMMARY_FIELDS_def
      is_nonempty_str_def is_list_def py_strip_def strip_by_def is_space_def)

text \<open>
  C5. The candidate \<open>{status: "ok", summary: {tldr: "x", ideas: [], insights: []}}\<close> is
  accepted, and the summary returned has \<open>status\<close>, \<open>tldr\<close>, \<open>ideas\<close> and \<open>insights\<close> at top
  level. In general, when \<open>summary\<close> holds a dict that has one of the required keys, the
  repaired summary maps a key to what the inner dict has for it, and otherwise to what the
  outer dict has if the key is one of \<open>status\<close>, \<open>video_id\<close>, \<open>title\<close>, \<open>channel\<close>,
  \<open>duration\<close>, \<open>views\<close>, \<open>likes\<close>, and to nothing for any other key; one warning line goes
  to stderr, and validation goes on.
\<close>

theorem flatten_nested_repair:
  "validate_summary
      (JDict [(ascii ''status'', JStr (ascii ''ok'')),
              (ascii ''summary'', JDict [(ascii ''tldr'', JStr (ascii ''x'')),
                                         (ascii ''ideas'', JList []),
                                         (ascii ''insights'', JList [])])]) video_id
    = ([flatten_warning video_id],
       Inr [(ascii ''status'', JStr (ascii ''ok'')), (ascii ''tldr'', JStr (ascii ''x'')),
            (ascii ''ideas'', JList []), (ascii ''insights'', JList []),
            (ascii ''videoId'', JStr video_id)])
   \<and> (map_of d (ascii ''summary'') = Some (JDict inner) \<and> distinct (map fst inner)
        \<and> (\<exists>field \<in> REQUIRED_SUMMARY_FIELDS. map_of inner field \<noteq> None)
      \<longrightarrow> (\<forall>k. map_of (fst (flatten_nested d video_id)) k =
                (case map_of inner k of
                   Some v \<Rightarrow> Some v
                 | None \<Rightarrow> if k \<in> metadata_fields then map_of d k else None))
          \<and> snd (flatten_nested d video_id) = [flatten_warning video_id]
          \<and> fst (validate_summary (JDict d) video_id) = [flatten_warning video_id])"
proof (intro conjI impI allI)
  show "validate_summary
      (JDict [(ascii ''status'', JStr (ascii ''ok'')),
              (ascii ''summary'', JDict [(ascii ''tldr'', JStr (ascii ''x'')),
                                         (ascii ''ideas'', JList []),
                                         (ascii ''insights'', JList [])])]) video_id
    = ([flatten_warning video_id],
       Inr [(ascii ''status'', JStr (ascii ''ok'')), (ascii ''tldr'', JStr (ascii ''x'')),
            (ascii ''ideas'', JList []), (ascii ''insights'', JList []),
            (ascii ''videoId'', JStr video_id)])"
    by (simp add: validate_summary_def flatten_nested_def dict_update_def ascii_def
        REQUIRED_SUMMARY_FIELDS_def metadata_fields_def is_nonempty_str_def is_list_def
        py_strip_def strip_by_def is_space_def)
next
  fix k
  assume h: "map_of d (ascii ''summary'') = Some (JDict inner) \<and> distinct (map fst inner)
        \<and> (\<exists>field \<in> REQUIRED_SUMMARY_FIELDS. map_of inner field \<noteq> None)"
  then have a: "map_of d (ascii ''summary'') = Some (JDict inner)"
    and c: "(\<exists>field \<in> REQUIRED_SUMMARY_FIELDS. map_of inner field \<noteq> None) = True"
    by blast+
  have fl: "flatten_nested d video_id =
      (dict_update (filter (\<lambda>(k, v). k \<in> metadata_fields) d) inner, [flatten_warning video_id])"
    unfolding flatten_nested_def by (simp only: a c option.case json.case if_True)
  show "map_of (fst (flatten_nested d video_id)) k =
       (case map_of inner k of Some v \<Rightarrow> Some v
        | None \<Rightarrow> if k \<in> metadata_fields then map_of d k else None)"
    using h by (simp add: fl map_of_dict_update map_of_filter_keys split: option.splits)
  show "snd (flatten_nested d video_id) = [flatten_warning video_id]"
    by (simp add: fl)
  show "fst (validate_summary (JDict d) video_id) = [flatten_warning video_id]"
    by (simp add: validate_summary_def fl Let_def)
qed

theorem flatten_nested_repair_witness:
  "map_of (fst (flatten_nested
      [(ascii ''status'', JStr (ascii ''ok'')), (ascii ''tldr'', JStr (ascii ''outer'')),
       (ascii ''extra'', JNull),
       (ascii ''summary'', JDict [(ascii ''tldr'', JStr (ascii ''x'')), (ascii ''ideas'', JList [])])]
      (ascii ''v1''))) (ascii ''tldr'') = Some (JStr (ascii ''x''))"
  using flatten_nested_repair [of "ascii ''v1''"
      "[(ascii ''status'', JStr (ascii ''ok'')), (ascii ''tldr'', JStr (ascii ''outer'')),
       (ascii ''extra'', JNull),
       (ascii ''summary'', JDict [(ascii ''tldr'', JStr (ascii ''x'')), (ascii ''ideas'', JList [])])]"
      "[(ascii ''tldr'', JStr (ascii ''x'')), (ascii ''ideas'', JList [])]"]
  by (simp add: ascii_def REQUIRED_SUMMARY_FIELDS_def)

section \<open>Properties of the visualisation stage\<close>

text \<open>
  C4, the input that refutes the claim as it is written. Three ideas, no insights and no
  takeaway give a mindmap with three branches of one idea each, not one branch with the
  three ideas: the length divided by 3 is 1, and each third of the list becomes a branch.
\<close>

theorem three_ideas_three_branches:
  "mindmap (fst (generate_viz_data
      (empty_summary\<lparr>ideas := Some [IdeaDict (ascii ''a'') None, IdeaDict (ascii ''b'') None,
                                     IdeaDict (ascii ''c'') None]\<rparr>)))
   = Some (Mindmap label_video_summary
       [Branch label_core_viewpoints [ascii ''a''],
        Branch label_key_arguments [ascii ''b''],
        Branch label_further_reflections [ascii ''c'']])"
  by (simp add: generate_viz_data_def generate_mindmap_def empty_summary_def get_list_def
      get_str_def idea_text_def slice_def mindmap_children_def Let_def)

text \<open>
  C4 as amended. With no insights and no takeaway, exactly two ideas give no mindmap, and
  exactly three ideas give a mindmap with exactly three branches, labelled core viewpoints,
  key arguments and further reflections, holding the first, the second and the third idea
  text.
\<close>

theorem mindmap_threshold:
  "get_list (insights s) = [] \<and> get_str (takeaway s) = [] \<longrightarrow>
     (ideas s = Some [i1, i2] \<longrightarrow> mindmap (fst (generate_viz_data s)) = None) \<and>
     (ideas s = Some [i1, i2, i3] \<longrightarrow>
        (\<exists>root. mindmap (fst (generate_viz_data s)) =
           Some (Mindmap root
             [Branch label_core_viewpoints [idea_text i1],
              Branch label_key_arguments [idea_text i2],
              Branch label_further_reflections [idea_text i3]])))"
  by (simp add: generate_viz_data_def generate_mindmap_def get_list_def
      slice_def mindmap_children_def Let_def)

theorem mindmap_threshold_witness:
  "mindmap (fst (generate_viz_data
      (empty_summary\<lparr>ideas := Some [IdeaStr (ascii ''a''), IdeaStr (ascii ''b'')]\<rparr>))) = None
   \<and> (\<exists>root. mindmap (fst (generate_viz_data
      (empty_summary\<lparr>ideas := Some [IdeaStr (ascii ''a''), IdeaStr (ascii ''b''),
         IdeaStr (ascii ''c'')]\<rparr>))) =
       Some (Mindmap root
             [Branch label_core_viewpoints [ascii ''a''],
              Branch label_key_arguments [ascii ''b''],
              Branch label_further_reflections [ascii ''c'']]))"
  using mindmap_threshold [of "empty_summary\<lparr>ideas := Some [IdeaStr (ascii ''a''), IdeaStr (ascii ''b'')]\<rparr>"
      "IdeaStr (ascii ''a'')" "IdeaStr (ascii ''b'')" "IdeaStr (ascii ''c'')"]
    mindmap_threshold [of "empty_summary\<lparr>ideas := Some [IdeaStr (ascii ''a''), IdeaStr (ascii ''b''),
         IdeaStr (ascii ''c'')]\<rparr>"
      "IdeaStr (ascii ''a'')" "IdeaStr (ascii ''b'')" "IdeaStr (ascii ''c'')"]
  by (simp add: empty_summary_def get_list_def get_str_def idea_text_def)

lemma detect_comparison_iff:
  "detect_comparison s \<longleftrightarrow>
     (\<exists>kw \<in> set comparison_keywords. \<exists>ps ss.
        py_join [32] (map idea_text (get_list (ideas s))) = ps @ kw @ ss)"
  by (simp add: detect_comparison_def list_ex_iff sublist_def)

text \<open>
  C8. The tags are \<open>stats\<close>, present exactly when a stat was extracted, followed by
  \<open>comparison\<close>, present exactly when one of the comparison keywords is a substring of the
  idea texts joined by single spaces; nothing else is ever a tag, so the mindmap adds
  none. The two idea texts of the example (the second conjunct from the end spells them by
  code point) contain the keywords U+4F20 U+7EDF and U+65B0 U+578B and give \<open>comparison\<close>.
\<close>

theorem suggested_viz_tags:
  "snd (generate_viz_data s) =
      (if extract_stats s \<noteq> [] then [ascii ''stats''] else [])
      @ (if detect_comparison s then [ascii ''comparison''] else [])
   \<and> (ascii ''stats'' \<in> set (snd (generate_viz_data s)) \<longleftrightarrow> extract_stats s \<noteq> [])
   \<and> (ascii ''comparison'' \<in> set (snd (generate_viz_data s)) \<longleftrightarrow>
        (\<exists>kw \<in> set comparison_keywords. \<exists>ps ss.
           py_join [32] (map idea_text (get_list (ideas s))) = ps @ kw @ ss))
   \<and> (map idea_text (get_list (ideas s)) =
          [[0x4F20, 0x7EDF, 0x65B9, 0x6848, 0x6210, 0x672C, 0x66F4, 0x9AD8],
           [0x65B0, 0x578B, 0x65B9, 0x6848, 0x66F4, 0x9AD8, 0x6548]]
        \<longrightarrow> ascii ''comparison'' \<in> set (snd (generate_viz_data s)))"
proof -
  have tags: "snd (generate_viz_data s) =
      (if extract_stats s \<noteq> [] then [ascii ''stats''] else [])
      @ (if detect_comparison s then [ascii ''comparison''] else [])"
    by (simp add: generate_viz_data_def Let_def)
  have ne: "ascii ''stats'' \<noteq> ascii ''comparison''"
    by (simp add: ascii_def)
  have st: "ascii ''stats'' \<in> set (snd (generate_viz_data s)) \<longleftrightarrow> extract_stats s \<noteq> []"
    using ne by (simp add: tags)
  have cmp: "ascii ''comparison'' \<in> set (snd (generate_viz_data s)) \<longleftrightarrow> detect_comparison s"
    using ne by (auto simp: tags)
  have ex: "detect_comparison s"
    if "map idea_text (get_list (ideas s)) =
          [[0x4F20, 0x7EDF, 0x65B9, 0x6848, 0x6210, 0x672C, 0x66F4, 0x9AD8],
           [0x65B0, 0x578B, 0x65B9, 0x6848, 0x66F4, 0x9AD8, 0x6548]]"
  proof -
    have "sublist [0x4F20, 0x7EDF] ([0x4F20, 0x7EDF] @
        ([0x65B9, 0x6848, 0x6210, 0x672C, 0x66F4, 0x9AD8, 32, 0x65B0, 0x578B, 0x65B9, 0x6848,
          0x66F4, 0x9AD8, 0x6548] :: nat list))"
      by (rule sublist_append_rightI)
    then show ?thesis
      unfolding detect_comparison_def Let_def that comparison_keywords_def
      by (simp add: list_ex_iff)
  qed
  from cmp have cmp': "ascii ''comparison'' \<in> set (snd (generate_viz_data s)) \<longleftrightarrow>
        (\<exists>kw \<in> set comparison_keywords. \<exists>ps ss.
           py_join [32] (map idea_text (get_list (ideas s))) = ps @ kw @ ss)"
    by (simp only: detect_comparison_iff)
  have ex': "map idea_text (get_list (ideas s)) =
          [[0x4F20, 0x7EDF, 0x65B9, 0x6848, 0x6210, 0x672C, 0x66F4, 0x9AD8],
           [0x65B0, 0x578B, 0x65B9, 0x6848, 0x66F4, 0x9AD8, 0x6548]]
        \<longrightarrow> ascii ''comparison'' \<in> set (snd (generate_viz_data s))"
  proof
    assume "map idea_text (get_list (ideas s)) =
          [[0x4F20, 0x7EDF, 0x65B9, 0x6848, 0x6210, 0x672C, 0x66F4, 0x9AD8],
           [0x65B0, 0x578B, 0x65B9, 0x6848, 0x66F4, 0x9AD8, 0x6548]]"
    then have "detect_comparison s" by (rule ex)
    then show "ascii ''comparison'' \<in> set (snd (generate_viz_data s))"
      by (simp only: cmp)
  qed
  show ?thesis
    by (intro conjI tags st cmp' ex')
qed

theorem suggested_viz_tags_witness:
  "ascii ''comparison'' \<in> set (snd (generate_viz_data (empty_summary\<lparr>ideas :=
       Some [IdeaDict [0x4F20, 0x7EDF, 0x65B9, 0x6848, 0x6210, 0x672C, 0x66F4, 0x9AD8] None,
             IdeaDict [0x65B0, 0x578B, 0x65B9, 0x6848, 0x66F4, 0x9AD8, 0x6548] None]\<rparr>)))"
proof -
  have h: "map idea_text (get_list (ideas (empty_summary\<lparr>ideas :=
       Some [IdeaDict [0x4F20, 0x7EDF, 0x65B9, 0x6848, 0x6210, 0x672C, 0x66F4, 0x9AD8] None,
             IdeaDict [0x65B0, 0x578B, 0x65B9, 0x6848, 0x66F4, 0x9AD8, 0x6548] None]\<rparr>))) =
          [[0x4F20, 0x7EDF, 0x65B9, 0x6848, 0x6210, 0x672C, 0x66F4, 0x9AD8],
           [0x65B0, 0x578B, 0x65B9, 0x6848, 0x66F4, 0x9AD8, 0x6548]]"
    by (simp add: get_list_def idea_text_def)
  show ?thesis
    by (rule suggested_viz_tags [THEN conjunct2, THEN conjunct2, THEN conjunct2, rule_format, OF h])
qed

lemma stats_loop_candidates:
  "stats_loop all_text st = fold (\<lambda>(v, t). add_stat t v) (stat_candidates all_text) st"
proof -
  have inner: "fold (\<lambda>m. add_stat tx (stat_val m sf)) ms st
      = fold (\<lambda>(v, t). add_stat t v) (map (\<lambda>m. (stat_val m sf, tx)) ms) st"
    for tx sf ms st
    by (induction ms arbitrary: st) simp_all
  have mid: "fold (\<lambda>(pattern, suffix').
             fold (\<lambda>m. add_stat tx (stat_val m suffix')) (re_findall pattern tx)) ps st
      = fold (\<lambda>(v, t). add_stat t v) (concat (map (\<lambda>(pattern, suffix').
        map (\<lambda>m. (stat_val m suffix', tx)) (re_findall pattern tx)) ps)) st"
    for tx ps st
    by (induction ps arbitrary: st) (auto simp: inner)
  show ?thesis
    unfolding stats_loop_def stat_candidates_def
    by (induction all_text arbitrary: st) (simp_all add: mid)
qed

lemma add_stat_full:
  "6 \<le> length acc \<Longrightarrow> fold (\<lambda>(v, t). add_stat t v) xs (acc, seen) = (acc, seen)"
  by (induction xs) (auto simp: add_stat_def split: prod.splits)

lemma fold_add_stat:
  "fst (fold (\<lambda>(v, t). add_stat t v) xs (acc, seen))
     = acc @ map stat_of (take (6 - length acc) (first_occurrences xs seen))"
proof (induction xs arbitrary: acc seen)
  case Nil
  then show ?case by simp
next
  case (Cons x xs)
  obtain v t where x: "x = (v, t)" by (cases x)
  show ?case
  proof (cases "6 \<le> length acc")
    case True
    then have "add_stat t v (acc, seen) = (acc, seen)"
      by (simp add: add_stat_def)
    then show ?thesis using x True by (simp add: add_stat_full)
  next
    case False
    then have lt: "length acc < 6" by simp
    show ?thesis
    proof (cases "v \<in> seen")
      case True
      then show ?thesis using Cons.IH[of acc seen] x by (simp add: add_stat_def)
    next
      case False
      have "6 - length acc = Suc (6 - length (acc @ [Stat v (py_strip (take 20 t))]))"
        using lt by simp
      then show ?thesis
        using Cons.IH[of "acc @ [Stat v (py_strip (take 20 t))]" "insert v seen"] x False lt
        by (simp add: add_stat_def stat_of_def)
    qed
  qed
qed

lemma first_occurrences_fresh:
  "fst ` set (first_occurrences xs seen) \<inter> seen = {}"
  by (induction xs seen rule: first_occurrences.induct) auto

lemma first_occurrences_distinct:
  "distinct (map fst (first_occurrences xs seen))"
proof (induction xs seen rule: first_occurrences.induct)
  case (1 seen)
  then show ?case by simp
next
  case (2 v t xs seen)
  have "v \<notin> fst ` set (first_occurrences xs (insert v seen))"
    using first_occurrences_fresh[of xs "insert v seen"] by auto
  with 2 show ?case by auto
qed

lemma stat_value_stat_of: "map stat_value (map stat_of xs) = map fst xs"
  by (induction xs) (auto simp: stat_value_def stat_of_def)

text \<open>
  C6. The stats are the first six first occurrences of the candidate values, in scan order:
  the facts come before the idea texts, and within one text the patterns are tried in the
  order of the list. So the values are pairwise distinct, there are at most six, and a
  value is the match followed by the unit, or the dollar sign followed by the match.
\<close>

theorem extract_stats_dedup:
  "extract_stats s
      = map stat_of (take 6 (first_occurrences (stat_candidates (all_text_of s)) {}))
   \<and> distinct (map stat_value (extract_stats s))
   \<and> length (extract_stats s) \<le> 6
   \<and> all_text_of s = get_list (facts s) @ map idea_text (get_list (ideas s))
   \<and> stat_val m [36] = [36] @ m
   \<and> (u \<noteq> [36] \<longrightarrow> stat_val m u = m @ u)"
proof -
  have eq: "extract_stats s
      = map stat_of (take 6 (first_occurrences (stat_candidates (all_text_of s)) {}))"
    unfolding extract_stats_def stats_loop_candidates
    using fold_add_stat[of "stat_candidates (all_text_of s)" "[]" "{}"]
    by (simp add: take_map)
  have "distinct (map fst (take 6 (first_occurrences (stat_candidates (all_text_of s)) {})))"
    using first_occurrences_distinct[of "stat_candidates (all_text_of s)" "{}"]
    by (simp add: take_map[symmetric] distinct_take)
  then have d: "distinct (map stat_value (extract_stats s))"
    by (simp only: eq stat_value_stat_of)
  have l: "length (extract_stats s) \<le> 6"
    by (simp add: extract_stats_def)
  show ?thesis
    by (intro conjI eq d l) (simp_all add: all_text_of_def stat_val_def)
qed

theorem extract_stats_dedup_witness:
  "stat_val (ascii ''30'') [37] = ascii ''30%''
   \<and> stat_val (ascii ''4.5M'') [36] = ascii ''$4.5M''
   \<and> length (extract_stats (empty_summary\<lparr>facts := Some [ascii ''30% 30%'']\<rparr>)) \<le> 6"
  using extract_stats_dedup [of "empty_summary\<lparr>facts := Some [ascii ''30% 30%'']\<rparr>"
      "ascii ''4.5M''" "[37]"]
    extract_stats_dedup [of "empty_summary\<lparr>facts := Some [ascii ''30% 30%'']\<rparr>"
      "ascii ''30''" "[37]"]
  by (simp add: ascii_def)

section \<open>Properties of the parser and of the two main loops\<close>

lemma tldr_field:
  "tldr (parse_markdown_summary content video_id) =
     map_option (\<lambda>m. strip_chars [62] (py_strip (group m 1))) (re_search SUMMARY_RE content)"
  by (simp add: parse_markdown_summary_def empty_summary_def Let_def split: option.splits)

lemma ideas_field:
  "ideas (parse_markdown_summary content video_id) =
     map_option (\<lambda>m. take 15 (ideas_loop (section_lines m) [])) (re_search IDEAS_RE content)"
  by (simp add: parse_markdown_summary_def empty_summary_def Let_def split: option.splits)

lemma insights_field:
  "insights (parse_markdown_summary content video_id) =
     map_option (\<lambda>m. take 10 (insights_loop (section_lines m) [])) (re_search INSIGHTS_RE content)"
  by (simp add: parse_markdown_summary_def empty_summary_def Let_def split: option.splits)

lemma quotes_field:
  "quotes (parse_markdown_summary content video_id) =
     map_option (\<lambda>m. take 5 (quotes_loop (section_lines m) [])) (re_search QUOTES_RE content)"
  by (simp add: parse_markdown_summary_def empty_summary_def Let_def split: option.splits)

lemma facts_field:
  "facts (parse_markdown_summary content video_id) =
     map_option (\<lambda>m. take 8 (facts_loop (section_lines m) [])) (re_search FACTS_RE content)"
  by (simp add: parse_markdown_summary_def empty_summary_def Let_def split: option.splits)

lemma takeaway_field:
  "takeaway (parse_markdown_summary content video_id) =
     map_option (\<lambda>m. py_strip (group m 1)) (re_search TAKEAWAY_RE content)"
  by (simp add: parse_markdown_summary_def empty_summary_def Let_def split: option.splits)

text \<open>
  C2. Whatever the document, the parsed summary has at most 15 ideas, 10 insights, 5 quotes
  and 8 facts, and whatever the summary, at most 6 stats are extracted. Each list is the
  first 15, 10, 5, 8 or 6 items of the list that the loop built, in the order in which the
  loop built it.
\<close>

theorem hard_caps:
  "length (get_list (ideas (parse_markdown_summary content video_id))) \<le> 15
   \<and> length (get_list (insights (parse_markdown_summary content video_id))) \<le> 10
   \<and> length (get_list (quotes (parse_markdown_summary content video_id))) \<le> 5
   \<and> length (get_list (facts (parse_markdown_summary content video_id))) \<le> 8
   \<and> length (extract_stats s) \<le> 6
   \<and> ideas (parse_markdown_summary content video_id) =
       map_option (\<lambda>m. take 15 (ideas_loop (section_lines m) [])) (re_search IDEAS_RE content)
   \<and> insights (parse_markdown_summary content video_id) =
       map_option (\<lambda>m. take 10 (insights_loop (section_lines m) [])) (re_search INSIGHTS_RE content)
   \<and> quotes (parse_markdown_summary content video_id) =
       map_option (\<lambda>m. take 5 (quotes_loop (section_lines m) [])) (re_search QUOTES_RE content)
   \<and> facts (parse_markdown_summary content video_id) =
       map_option (\<lambda>m. take 8 (facts_loop (section_lines m) [])) (re_search FACTS_RE content)
   \<and> extract_stats s = take 6 (fst (stats_loop (all_text_of s) ([], {})))"
  by (simp add: ideas_field insights_field quotes_field facts_field get_list_def extract_stats_def
      split: option.splits)

lemma import_item_cases:
  "import_item vmap it videos = videos
   \<or> (\<exists>idx v'. summary_falsy (summary_v (videos ! idx))
         \<and> import_item vmap it videos = videos[idx := v'])"
  by (auto simp: import_item_def Let_def split: option.splits prod.splits)

lemma import_item_frame:
  assumes "\<not> summary_falsy (summary_v (videos ! i))"
  shows "import_item vmap it videos ! i = videos ! i"
proof -
  from import_item_cases[of vmap it videos] show ?thesis
  proof
    assume "import_item vmap it videos = videos"
    then show ?thesis by simp
  next
    assume "\<exists>idx v'. summary_falsy (summary_v (videos ! idx))
         \<and> import_item vmap it videos = videos[idx := v']"
    then obtain idx v' where f: "summary_falsy (summary_v (videos ! idx))"
      and eq: "import_item vmap it videos = videos[idx := v']" by blast
    from f assms have "idx \<noteq> i" by auto
    then show ?thesis by (simp add: eq)
  qed
qed

lemma import_item_length: "length (import_item vmap it videos) = length videos"
  by (auto simp: import_item_def Let_def split: option.splits prod.splits)

lemma fold_import_item_frame:
  "i < length videos \<Longrightarrow> \<not> summary_falsy (summary_v (videos ! i)) \<Longrightarrow>
   fold (import_item vmap) items videos ! i = videos ! i"
proof (induction items arbitrary: videos)
  case Nil
  then show ?case by simp
next
  case (Cons it items)
  have same: "import_item vmap it videos ! i = videos ! i"
    using Cons.prems(2) by (rule import_item_frame)
  have "fold (import_item vmap) items (import_item vmap it videos) ! i
      = import_item vmap it videos ! i"
    using Cons.prems by (intro Cons.IH) (simp_all add: import_item_length same)
  then show ?case by (simp add: same)
qed

lemma generate_viz_video_skip:
  "summary_v video = Some s \<Longrightarrow> viz_data s = Some v \<Longrightarrow> viz_truthy v \<Longrightarrow>
   generate_viz_video video = video"
  by (simp add: generate_viz_video_def)

lemma generate_viz_video_idem:
  "generate_viz_video (generate_viz_video video) = generate_viz_video video"
  by (auto simp: generate_viz_video_def Let_def split: option.splits prod.splits)

text \<open>
  C9. A stored video whose summary has ideas or insights is left as it is by the import,
  whatever the summary files are. A stored video whose summary has a non-empty \<open>viz_data\<close>
  is left as it is by the visualisation run, and running the visualisation a second time
  changes nothing.
\<close>

theorem rerun_keeps_record:
  "(i < length videos \<and> summary_v (videos ! i) = Some s
      \<and> (get_list (ideas s) \<noteq> [] \<or> get_list (insights s) \<noteq> [])
      \<longrightarrow> import_main items videos ! i = videos ! i)
   \<and> (i < length videos \<and> summary_v (videos ! i) = Some s \<and> viz_data s = Some v \<and> viz_truthy v
      \<longrightarrow> generate_viz_main videos ! i = videos ! i)
   \<and> generate_viz_main (generate_viz_main videos) = generate_viz_main videos"
proof (intro conjI impI)
  assume h: "i < length videos \<and> summary_v (videos ! i) = Some s
      \<and> (get_list (ideas s) \<noteq> [] \<or> get_list (insights s) \<noteq> [])"
  then have "s \<noteq> empty_summary"
    by (auto simp: empty_summary_def get_list_def)
  with h have "\<not> summary_falsy (summary_v (videos ! i))"
    by (simp add: summary_falsy_def)
  with h show "import_main items videos ! i = videos ! i"
    unfolding import_main_def by (intro fold_import_item_frame) simp_all
next
  assume "i < length videos \<and> summary_v (videos ! i) = Some s \<and> viz_data s = Some v \<and> viz_truthy v"
  then show "generate_viz_main videos ! i = videos ! i"
    by (simp add: generate_viz_main_def generate_viz_video_skip)
next
  show "generate_viz_main (generate_viz_main videos) = generate_viz_main videos"
    by (simp add: generate_viz_main_def generate_viz_video_idem)
qed


theorem rerun_keeps_record_witness:
  "import_main [MdFile (ascii ''v1_x'') (ascii ''# IDEAS'' @ [10] @ ascii ''- new'')]
      [\<lparr>id_v = ascii ''v1'',
        summary_v = Some (empty_summary\<lparr>ideas := Some [IdeaStr (ascii ''old'')]\<rparr>),
        insights_count = None\<rparr>] ! 0
    = \<lparr>id_v = ascii ''v1'',
        summary_v = Some (empty_summary\<lparr>ideas := Some [IdeaStr (ascii ''old'')]\<rparr>),
        insights_count = None\<rparr>
   \<and> generate_viz_main
      [\<lparr>id_v = ascii ''v1'',
        summary_v = Some (empty_summary\<lparr>ideas := Some [IdeaStr (ascii ''old'')],
          viz_data := Some \<lparr>mindmap = Some (Mindmap (ascii ''r'') []), stats = None\<rparr>\<rparr>),
        insights_count = None\<rparr>] ! 0
    = \<lparr>id_v = ascii ''v1'',
        summary_v = Some (empty_summary\<lparr>ideas := Some [IdeaStr (ascii ''old'')],
          viz_data := Some \<lparr>mindmap = Some (Mindmap (ascii ''r'') []), stats = None\<rparr>\<rparr>),
        insights_count = None\<rparr>"
  using rerun_keeps_record [where i = 0
      and videos = "[\<lparr>id_v = ascii ''v1'',
        summary_v = Some (empty_summary\<lparr>ideas := Some [IdeaStr (ascii ''old'')]\<rparr>),
        insights_count = None\<rparr>]"
      and s = "empty_summary\<lparr>ideas := Some [IdeaStr (ascii ''old'')]\<rparr>"
      and items = "[MdFile (ascii ''v1_x'') (ascii ''# IDEAS'' @ [10] @ ascii ''- new'')]"]
    rerun_keeps_record [where i = 0
      and videos = "[\<lparr>id_v = ascii ''v1'',
        summary_v = Some (empty_summary\<lparr>ideas := Some [IdeaStr (ascii ''old'')],
          viz_data := Some \<lparr>mindmap = Some (Mindmap (ascii ''r'') []), stats = None\<rparr>\<rparr>),
        insights_count = None\<rparr>]"
      and s = "empty_summary\<lparr>ideas := Some [IdeaStr (ascii ''old'')],
          viz_data := Some \<lparr>mindmap = Some (Mindmap (ascii ''r'') []), stats = None\<rparr>\<rparr>"
      and v = "\<lparr>mindmap = Some (Mindmap (ascii ''r'') []), stats = None\<rparr>"]
  by (simp add: get_list_def empty_summary_def viz_truthy_def)

section \<open>The matcher on texts that are not fixed\<close>

lemma star_greedy_members:
  "x \<in> set (star_greedy p (n, cs, g)) \<longleftrightarrow>
     (\<exists>k \<le> length (takeWhile p cs). x = (n + k, drop k cs, g))"
proof (induction cs arbitrary: n)
  case Nil
  then show ?case by auto
next
  case (Cons c cs)
  show ?case
  proof (cases "p c")
    case True
    have "(\<exists>k \<le> Suc (length (takeWhile p cs)). x = (n + k, drop k (c # cs), g)) \<longleftrightarrow>
          x = (n, c # cs, g) \<or> (\<exists>k \<le> length (takeWhile p cs). x = (Suc n + k, drop k cs, g))"
      (is "?L \<longleftrightarrow> ?R")
    proof
      assume ?L
      then obtain k where k: "k \<le> Suc (length (takeWhile p cs))" "x = (n + k, drop k (c # cs), g)"
        by blast
      show ?R
      proof (cases k)
        case 0
        with k show ?thesis by simp
      next
        case (Suc k')
        with k show ?thesis by auto
      qed
    next
      assume ?R
      then show ?L
      proof
        assume "x = (n, c # cs, g)"
        then show ?L by (intro exI[of _ 0]) simp
      next
        assume "\<exists>k \<le> length (takeWhile p cs). x = (Suc n + k, drop k cs, g)"
        then obtain k where "k \<le> length (takeWhile p cs)" "x = (Suc n + k, drop k cs, g)" by blast
        then show ?L by (intro exI[of _ "Suc k"]) simp
      qed
    qed
    then show ?thesis using True Cons.IH[of "Suc n"] by auto
  next
    case False
    then show ?thesis by auto
  qed
qed

lemma star_greedy_head:
  "list_all p w \<Longrightarrow> (cs = [] \<or> \<not> p (hd cs)) \<Longrightarrow>
   \<exists>ms. star_greedy p (n, w @ cs, g) = (n + length w, cs, g) # ms"
proof (induction w arbitrary: n)
  case Nil
  then show ?case by (cases cs) auto
next
  case (Cons a w)
  then obtain ms where "star_greedy p (Suc n, w @ cs, g) = (Suc n + length w, cs, g) # ms"
    by fastforce
  with Cons.prems show ?case by simp
qed

lemma first_Star:
  "list_all p w \<Longrightarrow> (cs = [] \<or> \<not> p (hd cs)) \<Longrightarrow>
   first_match (Star p) (n, w @ cs, g) (n + length w, cs, g)"
  using star_greedy_head[of p w cs n g] by (simp add: first_match_def)

lemma first_Sym: "p c \<Longrightarrow> first_match (Sym p) (n, c # cs, g) (Suc n, cs, g)"
  by (simp add: first_match_def)

lemma first_lit: "first_match (lit c) (n, c # cs, g) (Suc n, cs, g)"
  by (simp add: first_match_def lit_def)

lemma first_Eps: "first_match Eps s s"
  by (simp add: first_match_def)

lemma first_Seq:
  "first_match a s x \<Longrightarrow> first_match b x y \<Longrightarrow> first_match (Seq a b) s y"
  by (auto simp: first_match_def)

lemma concat_map_all_empty: "\<forall>x \<in> set xs. f x = [] \<Longrightarrow> concat (map f xs) = []"
  by (induction xs) auto

lemma first_Seq_via:
  "rmatch a s = pre @ x # post \<Longrightarrow> \<forall>x' \<in> set pre. rmatch b x' = [] \<Longrightarrow> first_match b x y
   \<Longrightarrow> first_match (Seq a b) s y"
  by (auto simp: first_match_def concat_map_all_empty)

lemma first_Opt_take: "first_match a s x \<Longrightarrow> first_match (Opt a) s x"
  by (auto simp: first_match_def)

lemma first_Opt_skip: "rmatch a s = [] \<Longrightarrow> first_match (Opt a) s s"
  by (auto simp: first_match_def)

lemma first_Alt_left: "first_match a s x \<Longrightarrow> first_match (Alt a b) s x"
  by (auto simp: first_match_def)

lemma first_Alt_right: "rmatch a s = [] \<Longrightarrow> first_match b s x \<Longrightarrow> first_match (Alt a b) s x"
  by (auto simp: first_match_def)

lemma first_Group:
  "first_match a (n, cs, g) (n', cs', g') \<Longrightarrow>
   first_match (Group k a) (n, cs, g) (n', cs', (k, take (n' - n) cs) # g')"
  by (auto simp: first_match_def)

lemma first_Rep1:
  "p c \<Longrightarrow> list_all p w \<Longrightarrow> (cs = [] \<or> \<not> p (hd cs)) \<Longrightarrow>
   first_match (Rep1 p) (n, c # w @ cs, g) (Suc (n + length w), cs, g)"
  unfolding Rep1_def
  using first_Seq[OF first_Sym[of p c n "w @ cs" g] first_Star[of p w cs "Suc n" g]]
  by simp

lemma search_from_hit: "first_match r (n, cs, []) m \<Longrightarrow> search_from r n cs = Some m"
  by (auto simp: first_match_def)

lemma search_from_miss:
  "rmatch r (n, c # cs, []) = [] \<Longrightarrow> search_from r n (c # cs) = search_from r (Suc n) cs"
  by simp

lemma nomatch_Seq: "\<forall>x \<in> set (rmatch a s). rmatch b x = [] \<Longrightarrow> rmatch (Seq a b) s = []"
  by (simp add: concat_map_all_empty)

lemma is_digit_ascii: "c < 1632 \<Longrightarrow> is_digit c = (48 \<le> c \<and> c \<le> 57)"
  unfolding is_digit_def decimal_zeros_def by (simp add: list_ex_iff) arith

lemma not_digit_punct [simp]: "\<not> is_digit 58" "\<not> is_digit 91" "\<not> is_digit 93" "\<not> is_digit 40"
  by (simp_all add: is_digit_ascii)

lemma not_space_punct [simp]: "\<not> is_space 91"
  by (simp add: is_space_def)

lemma first_Group_Rep1:
  assumes "ds \<noteq> []" "list_all p ds" "cs = [] \<or> \<not> p (hd cs)"
  shows "first_match (Group k (Rep1 p)) (n, ds @ cs, g) (n + length ds, cs, (k, ds) # g)"
proof -
  from assms(1) obtain c w where ds: "ds = c # w" by (cases ds) auto
  with assms(2) have pc: "p c" and pw: "list_all p w" by auto
  have "first_match (Rep1 p) (n, c # w @ cs, g) (Suc (n + length w), cs, g)"
    using pc pw assms(3) by (rule first_Rep1)
  then have "first_match (Group k (Rep1 p)) (n, c # w @ cs, g)
      (Suc (n + length w), cs, (k, take (Suc (n + length w) - n) (c # w @ cs)) # g)"
    by (rule first_Group)
  then show ?thesis by (simp add: ds)
qed

lemma first_seqs_Cons: "first_match r s x \<Longrightarrow> first_match (seqs rs) x y \<Longrightarrow> first_match (seqs (r # rs)) s y"
  by (simp add: seqs_def first_Seq)

lemma first_seqs_Nil: "first_match (seqs []) s s"
  by (simp add: seqs_def first_Eps)

lemma first_opt_lit:
  "ob = [] \<or> ob = [c] \<Longrightarrow> (cs = [] \<or> hd cs \<noteq> c) \<Longrightarrow>
   first_match (Opt (lit c)) (n, ob @ cs, g) (n + length ob, cs, g)"
proof (erule disjE)
  assume "ob = []" and "cs = [] \<or> hd cs \<noteq> c"
  then have "rmatch (lit c) (n, cs, g) = []"
    by (cases cs) (auto simp: lit_def)
  then show ?thesis using \<open>ob = []\<close> by (simp add: first_Opt_skip)
next
  assume "ob = [c]"
  then show ?thesis using first_Opt_take[OF first_lit[of c n cs g]] by simp
qed

lemma first_closing:
  "\<exists>n' cs'. first_match (seqs [Opt (lit 93), lit 93]) (n, 93 # post, g) (n', cs', g)"
proof (cases "post \<noteq> [] \<and> hd post = 93")
  case True
  then obtain post' where p: "post = 93 # post'" by (cases post) auto
  have "first_match (seqs [Opt (lit 93), lit 93]) (n, 93 # 93 # post', g) (Suc (Suc n), post', g)"
    by (rule first_seqs_Cons[OF first_Opt_take[OF first_lit]
          first_seqs_Cons[OF first_lit first_seqs_Nil]])
  then show ?thesis using p by blast
next
  case False
  then have no: "rmatch (seqs [lit 93]) (Suc n, post, g) = []"
    by (cases post) (auto simp: seqs_def lit_def)
  have opt: "rmatch (Opt (lit 93)) (n, 93 # post, g) = [] @ (Suc n, post, g) # [(n, 93 # post, g)]"
    by (simp add: lit_def)
  have "first_match (seqs [lit 93]) (n, 93 # post, g) (Suc n, post, g)"
    by (rule first_seqs_Cons[OF first_lit first_seqs_Nil])
  then have "first_match (Seq (Opt (lit 93)) (seqs [lit 93])) (n, 93 # post, g) (Suc n, post, g)"
    using no opt
    by (intro first_Seq_via[where pre = "[(Suc n, post, g)]" and x = "(n, 93 # post, g)" and post = "[]"]) simp_all
  then show ?thesis by (auto simp: seqs_def)
qed

lemma timestamp_first:
  assumes ob: "ob = [] \<or> ob = [91]"
    and mm: "mm \<noteq> []" "list_all is_digit mm"
    and ss: "ss \<noteq> []" "list_all is_digit ss"
  shows "\<exists>n' cs'. first_match TIMESTAMP_RE (n, 91 # ob @ mm @ 58 # ss @ 93 # post, g)
            (n', cs', (2, ss) # (1, mm) # g)"
proof -
  from mm have hd_mm: "hd (mm @ 58 # ss @ 93 # post) \<noteq> 91"
    by (cases mm) auto
  obtain n' cs' where cl: "first_match (seqs [Opt (lit 93), lit 93])
      (Suc (Suc n + length ob + length mm) + length ss, 93 # post, (2, ss) # (1, mm) # g)
      (n', cs', (2, ss) # (1, mm) # g)"
    using first_closing by blast
  have "first_match TIMESTAMP_RE (n, 91 # ob @ mm @ 58 # ss @ 93 # post, g)
            (n', cs', (2, ss) # (1, mm) # g)"
    unfolding TIMESTAMP_RE_def
  proof (rule first_seqs_Cons[OF first_lit], rule first_seqs_Cons)
    show "first_match (Opt (lit 91)) (Suc n, ob @ mm @ 58 # ss @ 93 # post, g)
        (Suc n + length ob, mm @ 58 # ss @ 93 # post, g)"
      using ob hd_mm by (intro first_opt_lit) auto
  next
    show "first_match (seqs [Group 1 (Rep1 is_digit), lit 58, Group 2 (Rep1 is_digit),
         Opt (lit 93), lit 93]) (Suc n + length ob, mm @ 58 # ss @ 93 # post, g)
         (n', cs', (2, ss) # (1, mm) # g)"
    proof (rule first_seqs_Cons, rule first_Group_Rep1[OF mm], simp,
        rule first_seqs_Cons[OF first_lit], rule first_seqs_Cons)
      show "first_match (Group 2 (Rep1 is_digit))
         (Suc (Suc n + length ob + length mm), ss @ 93 # post, (1, mm) # g)
         (Suc (Suc n + length ob + length mm) + length ss, 93 # post, (2, ss) # (1, mm) # g)"
        using ss by (intro first_Group_Rep1) auto
    next
      show "first_match (seqs [Opt (lit 93), lit 93])
         (Suc (Suc n + length ob + length mm) + length ss, 93 # post, (2, ss) # (1, mm) # g)
         (n', cs', (2, ss) # (1, mm) # g)"
        by (rule cl)
    qed
  qed
  then show ?thesis by blast
qed

lemma timestamp_nomatch: "c \<noteq> 91 \<Longrightarrow> rmatch TIMESTAMP_RE (n, c # cs, g) = []"
  by (simp add: TIMESTAMP_RE_def seqs_def lit_def)

lemma timestamp_search:
  assumes "91 \<notin> set pre"
    and ob: "ob = [] \<or> ob = [91]"
    and mm: "mm \<noteq> []" "list_all is_digit mm"
    and ss: "ss \<noteq> []" "list_all is_digit ss"
  shows "\<exists>m. re_search TIMESTAMP_RE (pre @ 91 # ob @ mm @ 58 # ss @ 93 # post) = Some m
            \<and> group m 1 = mm \<and> group m 2 = ss"
proof -
  have "\<exists>m. search_from TIMESTAMP_RE n (pre @ 91 # ob @ mm @ 58 # ss @ 93 # post) = Some m
            \<and> group m 1 = mm \<and> group m 2 = ss" for n
    using assms(1)
  proof (induction pre arbitrary: n)
    case Nil
    obtain n' cs' where "first_match TIMESTAMP_RE (n, 91 # ob @ mm @ 58 # ss @ 93 # post, [])
            (n', cs', [(2, ss), (1, mm)])"
      using timestamp_first[OF ob mm ss] by blast
    then have "search_from TIMESTAMP_RE n (91 # ob @ mm @ 58 # ss @ 93 # post)
        = Some (n', cs', [(2, ss), (1, mm)])"
      by (rule search_from_hit)
    then show ?case by (simp add: group_def)
  next
    case (Cons c pre)
    then have "rmatch TIMESTAMP_RE (n, c # pre @ 91 # ob @ mm @ 58 # ss @ 93 # post, []) = []"
      by (intro timestamp_nomatch) auto
    then have "search_from TIMESTAMP_RE n ((c # pre) @ 91 # ob @ mm @ 58 # ss @ 93 # post)
        = search_from TIMESTAMP_RE (Suc n) (pre @ 91 # ob @ mm @ 58 # ss @ 93 # post)"
      by simp
    with Cons show ?case by simp
  qed
  then show ?thesis by (simp add: re_search_def)
qed

lemma first_Rep1_run:
  assumes "ds \<noteq> []" "list_all p ds" "cs = [] \<or> \<not> p (hd cs)"
  shows "first_match (Rep1 p) (n, ds @ cs, g) (n + length ds, cs, g)"
proof -
  from assms(1) obtain c w where ds: "ds = c # w" by (cases ds) auto
  with assms(2) have pc: "p c" and pw: "list_all p w" by auto
  have "first_match (Rep1 p) (n, c # w @ cs, g) (Suc (n + length w), cs, g)"
    using pc pw assms(3) by (rule first_Rep1)
  then show ?thesis by (simp add: ds)
qed

lemma first_closing_link:
  assumes cb: "cb = [] \<or> cb = [93]"
    and k: "first_match (seqs (lit 40 # K)) (Suc n + length cb, 40 # rest, g) y"
  shows "first_match (seqs (Opt (lit 93) # lit 93 # lit 40 # K)) (n, 93 # cb @ 40 # rest, g) y"
  using cb
proof
  assume e: "cb = []"
  have no: "rmatch (seqs (lit 93 # lit 40 # K)) (Suc n, 40 # rest, g) = []"
    by (simp add: seqs_def lit_def)
  have opt: "rmatch (Opt (lit 93)) (n, 93 # 40 # rest, g)
      = [(Suc n, 40 # rest, g)] @ (n, 93 # 40 # rest, g) # []"
    by (simp add: lit_def)
  have "first_match (seqs (lit 93 # lit 40 # K)) (n, 93 # 40 # rest, g) y"
    by (rule first_seqs_Cons[OF first_lit]) (use k e in simp)
  then have "first_match (Seq (Opt (lit 93)) (seqs (lit 93 # lit 40 # K))) (n, 93 # 40 # rest, g) y"
    using no by (intro first_Seq_via[OF opt]) simp_all
  then show ?thesis using e by (simp add: seqs_def)
next
  assume e: "cb = [93]"
  have "first_match (seqs (lit 93 # lit 40 # K)) (Suc n, 93 # 40 # rest, g) y"
    by (rule first_seqs_Cons[OF first_lit]) (use k e in simp)
  then have "first_match (seqs (Opt (lit 93) # lit 93 # lit 40 # K)) (n, 93 # 93 # 40 # rest, g) y"
    by (rule first_seqs_Cons[OF first_Opt_take[OF first_lit]])
  then show ?thesis using e by simp
qed

lemma link_first:
  assumes w: "list_all is_space w"
    and ob: "ob = [] \<or> ob = [91]"
    and mm: "mm \<noteq> []" "list_all is_digit mm"
    and ss: "ss \<noteq> []" "list_all is_digit ss"
    and cb: "cb = [] \<or> cb = [93]"
    and url: "url \<noteq> []" "41 \<notin> set url"
  shows "\<exists>n'. first_match TIMESTAMP_LINK_RE
            (n, w @ 91 # ob @ mm @ 58 # ss @ 93 # cb @ 40 # url @ 41 # post, g) (n', post, g)"
proof -
  from mm have hd_mm: "hd (mm @ 58 # ss @ 93 # cb @ 40 # url @ 41 # post) \<noteq> 91"
    by (cases mm) auto
  let ?n1 = "Suc (n + length w)"
  let ?n2 = "?n1 + length ob"
  let ?n3 = "Suc (?n2 + length mm)"
  let ?n4 = "?n3 + length ss"
  let ?n5 = "Suc (Suc ?n4 + length cb)"
  let ?n6 = "Suc (?n5 + length url)"
  have url': "list_all (\<lambda>c. c \<noteq> 41) url"
    using url(2) by (auto simp: list_all_iff)
  have tail: "first_match (seqs [lit 40, Rep1 (\<lambda>c. c \<noteq> 41), lit 41])
      (Suc ?n4 + length cb, 40 # url @ 41 # post, g) (?n6, post, g)"
  proof (rule first_seqs_Cons[OF first_lit], rule first_seqs_Cons)
    show "first_match (Rep1 (\<lambda>c. c \<noteq> 41)) (?n5, url @ 41 # post, g) (?n5 + length url, 41 # post, g)"
      using url(1) url' by (intro first_Rep1_run) auto
  next
    show "first_match (seqs [lit 41]) (?n5 + length url, 41 # post, g) (?n6, post, g)"
      by (rule first_seqs_Cons[OF first_lit first_seqs_Nil])
  qed
  have closing: "first_match (seqs [Opt (lit 93), lit 93, lit 40, Rep1 (\<lambda>c. c \<noteq> 41), lit 41])
      (?n4, 93 # cb @ 40 # url @ 41 # post, g) (?n6, post, g)"
    using cb tail by (rule first_closing_link)
  have "first_match TIMESTAMP_LINK_RE
      (n, w @ 91 # ob @ mm @ 58 # ss @ 93 # cb @ 40 # url @ 41 # post, g) (?n6, post, g)"
    unfolding TIMESTAMP_LINK_RE_def
  proof (rule first_seqs_Cons, rule first_Star[OF w], simp,
      rule first_seqs_Cons[OF first_lit], rule first_seqs_Cons)
    show "first_match (Opt (lit 91)) (?n1, ob @ mm @ 58 # ss @ 93 # cb @ 40 # url @ 41 # post, g)
        (?n2, mm @ 58 # ss @ 93 # cb @ 40 # url @ 41 # post, g)"
      using ob hd_mm by (intro first_opt_lit) auto
  next
    show "first_match (seqs [Rep1 is_digit, lit 58, Rep1 is_digit, Opt (lit 93), lit 93, lit 40,
         Rep1 (\<lambda>c. c \<noteq> 41), lit 41]) (?n2, mm @ 58 # ss @ 93 # cb @ 40 # url @ 41 # post, g)
         (?n6, post, g)"
    proof (rule first_seqs_Cons, rule first_Rep1_run[OF mm], simp,
        rule first_seqs_Cons[OF first_lit], rule first_seqs_Cons)
      show "first_match (Rep1 is_digit) (?n3, ss @ 93 # cb @ 40 # url @ 41 # post, g)
          (?n4, 93 # cb @ 40 # url @ 41 # post, g)"
        using ss by (intro first_Rep1_run) auto
    next
      show "first_match (seqs [Opt (lit 93), lit 93, lit 40, Rep1 (\<lambda>c. c \<noteq> 41), lit 41])
          (?n4, 93 # cb @ 40 # url @ 41 # post, g) (?n6, post, g)"
        by (rule closing)
    qed
  qed
  then show ?thesis by blast
qed

lemma seqs_Cons: "seqs (r # rs) = Seq r (seqs rs)"
  by (simp add: seqs_def)

lemma lit_Seq_nomatch: "cs = [] \<or> hd cs \<noteq> c \<Longrightarrow> rmatch (Seq (lit c) K) (n, cs, g) = []"
  by (cases cs) (simp_all add: lit_def)

lemma star_lit_nomatch:
  assumes "\<forall>k \<le> length (takeWhile p cs). k < length cs \<longrightarrow> cs ! k \<noteq> c"
  shows "rmatch (Seq (Star p) (Seq (lit c) K)) (n, cs, g) = []"
proof (rule nomatch_Seq, rule ballI)
  fix x
  assume "x \<in> set (rmatch (Star p) (n, cs, g))"
  then obtain k where k: "k \<le> length (takeWhile p cs)" "x = (n + k, drop k cs, g)"
    by (auto simp: star_greedy_members)
  have "drop k cs = [] \<or> hd (drop k cs) \<noteq> c"
  proof (cases "k < length cs")
    case True
    then have "hd (drop k cs) = cs ! k" by (simp add: hd_drop_conv_nth)
    moreover have "cs ! k \<noteq> c" using assms k(1) True by blast
    ultimately show ?thesis by simp
  next
    case False
    then show ?thesis by simp
  qed
  then show "rmatch (Seq (lit c) K) x = []"
    unfolding k(2) by (rule lit_Seq_nomatch)
qed

lemma link_nomatch:
  assumes "\<forall>k \<le> length (takeWhile is_space cs). k < length cs \<longrightarrow> cs ! k \<noteq> 91"
  shows "rmatch TIMESTAMP_LINK_RE (n, cs, g) = []"
  unfolding TIMESTAMP_LINK_RE_def seqs_Cons
  using assms by (rule star_lit_nomatch)

lemma link_nomatch_no_bracket: "91 \<notin> set cs \<Longrightarrow> rmatch TIMESTAMP_LINK_RE (n, cs, g) = []"
  by (rule link_nomatch) (metis nth_mem)

lemma takeWhile_stops:
  "\<exists>x \<in> set b. \<not> p x \<Longrightarrow> length (takeWhile p (b @ rest)) < length b"
  by (induction b) auto

lemma takeWhile_stops_inside:
  assumes "b \<noteq> []" "\<not> p (last b)"
  shows "length (takeWhile p (b @ rest)) < length b"
proof -
  have "last b \<in> set b" using assms(1) by simp
  then have "\<exists>x \<in> set b. \<not> p x" using assms(2) by blast
  then show ?thesis by (rule takeWhile_stops)
qed

lemma link_nomatch_inside:
  assumes "b \<noteq> []" "\<not> is_space (last b)" "91 \<notin> set b"
  shows "rmatch TIMESTAMP_LINK_RE (n, b @ rest, g) = []"
proof (rule link_nomatch, intro allI impI)
  fix k
  assume "k \<le> length (takeWhile is_space (b @ rest))" "k < length (b @ rest)"
  moreover have "length (takeWhile is_space (b @ rest)) < length b"
    using assms(1,2) by (rule takeWhile_stops_inside)
  ultimately have "k < length b" by simp
  then have "(b @ rest) ! k \<in> set b" by (simp add: nth_append)
  with assms(3) show "(b @ rest) ! k \<noteq> 91" by auto
qed

lemma sub_skip:
  "rmatch r (n, c # cs, []) = [] \<Longrightarrow>
   re_sub_empty r False n (c # cs) = c # re_sub_empty r False (Suc n) cs"
  by (subst re_sub_empty.simps) simp

lemma sub_end: "rmatch r (n, [], []) = [] \<Longrightarrow> re_sub_empty r False n [] = []"
  by (subst re_sub_empty.simps) simp

lemma sub_hit:
  "first_match r (n, cs, []) (n', cs', g') \<Longrightarrow> length cs' < length cs \<Longrightarrow>
   re_sub_empty r False n cs = re_sub_empty r False n' cs'"
  by (subst re_sub_empty.simps) (auto simp: first_match_def)

lemma link_sub_no_bracket: "91 \<notin> set cs \<Longrightarrow> re_sub_empty TIMESTAMP_LINK_RE False n cs = cs"
proof (induction cs arbitrary: n)
  case Nil
  then show ?case by (simp add: sub_end link_nomatch_no_bracket)
next
  case (Cons c cs)
  then show ?case by (simp add: sub_skip link_nomatch_no_bracket)
qed

lemma link_sub:
  assumes p0: "p0 = [] \<or> \<not> is_space (last p0)" "91 \<notin> set p0"
    and w: "list_all is_space w"
    and ob: "ob = [] \<or> ob = [91]"
    and mm: "mm \<noteq> []" "list_all is_digit mm"
    and ss: "ss \<noteq> []" "list_all is_digit ss"
    and cb: "cb = [] \<or> cb = [93]"
    and url: "url \<noteq> []" "41 \<notin> set url"
    and post: "91 \<notin> set post"
  shows "re_sub TIMESTAMP_LINK_RE
            (p0 @ w @ 91 # ob @ mm @ 58 # ss @ 93 # cb @ 40 # url @ 41 # post) = p0 @ post"
proof -
  let ?T = "w @ 91 # ob @ mm @ 58 # ss @ 93 # cb @ 40 # url @ 41 # post"
  have "re_sub_empty TIMESTAMP_LINK_RE False n (b @ ?T) = b @ post"
    if "b = [] \<or> \<not> is_space (last b)" "91 \<notin> set b" for b n
    using that
  proof (induction b arbitrary: n)
    case Nil
    obtain n' where "first_match TIMESTAMP_LINK_RE (n, ?T, []) (n', post, [])"
      using link_first[OF w ob mm ss cb url] by blast
    then have "re_sub_empty TIMESTAMP_LINK_RE False n ?T = re_sub_empty TIMESTAMP_LINK_RE False n' post"
      by (rule sub_hit) simp
    then show ?case using post by (simp add: link_sub_no_bracket)
  next
    case (Cons c b)
    have "rmatch TIMESTAMP_LINK_RE (n, (c # b) @ ?T, []) = []"
      using Cons.prems by (intro link_nomatch_inside) auto
    then have "re_sub_empty TIMESTAMP_LINK_RE False n ((c # b) @ ?T)
        = c # re_sub_empty TIMESTAMP_LINK_RE False (Suc n) (b @ ?T)"
      using sub_skip[of TIMESTAMP_LINK_RE n c "b @ ?T"] by simp
    moreover have "re_sub_empty TIMESTAMP_LINK_RE False (Suc n) (b @ ?T) = b @ post"
      using Cons.prems by (intro Cons.IH) (auto split: if_splits)
    ultimately show ?case by simp
  qed
  from this[OF p0, of 0] show ?thesis by (simp add: re_sub_def)
qed

lemma mem_seqs_Cons:
  "x \<in> set (rmatch (seqs (r # rs)) s) \<longleftrightarrow> (\<exists>y \<in> set (rmatch r s). x \<in> set (rmatch (seqs rs) y))"
  by (auto simp: seqs_def)

lemma mem_seqs_Nil: "x \<in> set (rmatch (seqs []) s) \<longleftrightarrow> x = s"
  by (auto simp: seqs_def)

lemma mem_lit:
  "x \<in> set (rmatch (lit c) (n, cs, g)) \<longleftrightarrow> (\<exists>cs'. cs = c # cs' \<and> x = (Suc n, cs', g))"
  by (cases cs) (auto simp: lit_def)

lemma mem_Opt_lit:
  "x \<in> set (rmatch (Opt (lit c)) (n, cs, g)) \<longleftrightarrow>
     (\<exists>cs'. cs = c # cs' \<and> x = (Suc n, cs', g)) \<or> x = (n, cs, g)"
  by (auto simp: mem_lit)

lemma mem_Opt_lit_E:
  assumes "x \<in> set (rmatch (Opt (lit c)) (n, cs, g))"
  obtains ob cs' n' where "cs = ob @ cs'" "ob = [] \<or> ob = [c]" "x = (n', cs', g)"
proof -
  from assms have "(\<exists>cs'. cs = c # cs' \<and> x = (Suc n, cs', g)) \<or> x = (n, cs, g)"
    by (simp only: mem_Opt_lit)
  then show ?thesis
  proof
    assume "\<exists>cs'. cs = c # cs' \<and> x = (Suc n, cs', g)"
    then obtain cs' where "cs = [c] @ cs'" "x = (Suc n, cs', g)" by auto
    then show ?thesis by (intro that[of "[c]" cs' "Suc n"]) auto
  next
    assume "x = (n, cs, g)"
    then show ?thesis by (intro that[of "[]" cs n]) auto
  qed
qed

lemma take_within_takeWhile:
  "k \<le> length (takeWhile p xs) \<Longrightarrow> list_all p (take k xs)"
proof (induction xs arbitrary: k)
  case Nil
  then show ?case by simp
next
  case (Cons a xs)
  then show ?case by (cases k) (auto split: if_splits)
qed

lemma mem_Rep1:
  assumes "x \<in> set (rmatch (Rep1 p) (n, cs, g))"
  obtains w rest where "w \<noteq> []" "list_all p w" "cs = w @ rest" "x = (n + length w, rest, g)"
proof -
  from assms obtain c cs' where cs: "cs = c # cs'" and pc: "p c"
    and x: "x \<in> set (star_greedy p (Suc n, cs', g))"
    by (cases cs) (auto simp: Rep1_def split: if_splits)
  from x obtain k where k: "k \<le> length (takeWhile p cs')" "x = (Suc n + k, drop k cs', g)"
    by (auto simp: star_greedy_members)
  have len: "length (take k cs') = k"
    using k(1) length_takeWhile_le[of p cs'] by simp
  show ?thesis
  proof (rule that[of "c # take k cs'" "drop k cs'"])
    show "list_all p (c # take k cs')" using pc take_within_takeWhile[OF k(1)] by simp
    show "cs = (c # take k cs') @ drop k cs'" by (simp add: cs)
    show "x = (n + length (c # take k cs'), drop k cs', g)" using k(2) len by simp
  qed simp
qed

lemma mem_Group_Rep1:
  assumes "x \<in> set (rmatch (Group j (Rep1 p)) (n, cs, g))"
  obtains w rest g' where "w \<noteq> []" "list_all p w" "cs = w @ rest" "x = (n + length w, rest, g')"
proof -
  from assms obtain y where y: "y \<in> set (rmatch (Rep1 p) (n, cs, g))"
    and x: "x = (case y of (n', cs', g') \<Rightarrow> (n', cs', (j, take (n' - n) cs) # g'))"
    by auto
  from y obtain w rest where w: "w \<noteq> []" "list_all p w" "cs = w @ rest" "y = (n + length w, rest, g)"
    by (rule mem_Rep1)
  show ?thesis
    by (rule that[OF w(1-3)]) (simp add: x w(4))
qed

lemma mem_closing:
  assumes "x \<in> set (rmatch (seqs (Opt (lit 93) # lit 93 # K)) (n, cs, g))"
  obtains n' cs' where "cs = 93 # cs'"
proof -
  from assms obtain y where y: "y \<in> set (rmatch (Opt (lit 93)) (n, cs, g))"
    and x: "x \<in> set (rmatch (seqs (lit 93 # K)) y)"
    by (auto simp: mem_seqs_Cons)
  from y x show ?thesis
    by (auto simp: mem_Opt_lit mem_seqs_Cons mem_lit intro: that)
qed

lemma timestamp_sound:
  assumes "x \<in> set (rmatch TIMESTAMP_RE (n, cs, g))"
  shows "timestamp_token_at cs"
proof -
  from assms obtain y1 where y1: "y1 \<in> set (rmatch (lit 91) (n, cs, g))"
    and r1: "x \<in> set (rmatch (seqs [Opt (lit 91), Group 1 (Rep1 is_digit), lit 58,
        Group 2 (Rep1 is_digit), Opt (lit 93), lit 93]) y1)"
    unfolding TIMESTAMP_RE_def mem_seqs_Cons[of x "lit 91"] by blast
  from y1 obtain c1 where c1: "cs = 91 # c1" "y1 = (Suc n, c1, g)"
    by (auto simp: mem_lit)
  from r1 obtain y2 where y2: "y2 \<in> set (rmatch (Opt (lit 91)) (Suc n, c1, g))"
    and r2: "x \<in> set (rmatch (seqs [Group 1 (Rep1 is_digit), lit 58,
        Group 2 (Rep1 is_digit), Opt (lit 93), lit 93]) y2)"
    unfolding c1(2) mem_seqs_Cons[of x "Opt (lit 91)"] by blast
  from y2 obtain ob c2 n2 where c2: "c1 = ob @ c2" "ob = [] \<or> ob = [91]" "y2 = (n2, c2, g)"
    by (rule mem_Opt_lit_E)
  from r2 obtain y3 where y3: "y3 \<in> set (rmatch (Group 1 (Rep1 is_digit)) (n2, c2, g))"
    and r3: "x \<in> set (rmatch (seqs [lit 58, Group 2 (Rep1 is_digit), Opt (lit 93), lit 93]) y3)"
    unfolding c2(3) mem_seqs_Cons[of x "Group 1 (Rep1 is_digit)"] by blast
  from y3 obtain mm c3 g3 n3 where c3: "mm \<noteq> []" "list_all is_digit mm" "c2 = mm @ c3"
      "y3 = (n3, c3, g3)"
    by (rule mem_Group_Rep1) blast
  from r3 obtain y4 where y4: "y4 \<in> set (rmatch (lit 58) (n3, c3, g3))"
    and r4: "x \<in> set (rmatch (seqs [Group 2 (Rep1 is_digit), Opt (lit 93), lit 93]) y4)"
    unfolding c3(4) mem_seqs_Cons[of x "lit 58"] by blast
  from y4 obtain c4 where c4: "c3 = 58 # c4" "y4 = (Suc n3, c4, g3)"
    by (auto simp: mem_lit)
  from r4 obtain y5 where y5: "y5 \<in> set (rmatch (Group 2 (Rep1 is_digit)) (Suc n3, c4, g3))"
    and r5: "x \<in> set (rmatch (seqs [Opt (lit 93), lit 93]) y5)"
    unfolding c4(2) mem_seqs_Cons[of x "Group 2 (Rep1 is_digit)"] by blast
  from y5 obtain ss c5 g5 n5 where c5: "ss \<noteq> []" "list_all is_digit ss" "c4 = ss @ c5"
      "y5 = (n5, c5, g5)"
    by (rule mem_Group_Rep1) blast
  from r5 obtain post where post: "c5 = 93 # post"
    unfolding c5(4) by (rule mem_closing)
  have "cs = [91] @ ob @ mm @ [58] @ ss @ [93] @ post"
    by (simp add: c1(1) c2(1) c3(3) c4(1) c5(3) post)
  then show ?thesis
    unfolding timestamp_token_at_def using c2(2) c3(1,2) c5(1,2) by blast
qed

lemma search_from_none:
  "(\<And>n' cs'. suffix cs' cs \<Longrightarrow> rmatch r (n', cs', []) = []) \<Longrightarrow> search_from r n cs = None"
proof (induction cs arbitrary: n)
  case Nil
  then show ?case by simp
next
  case (Cons c cs)
  have "rmatch r (n, c # cs, []) = []" by (rule Cons.prems) simp
  moreover have "search_from r (Suc n) cs = None"
    by (rule Cons.IH) (rule Cons.prems, simp add: suffix_Cons)
  ultimately show ?case by simp
qed

lemma timestamp_search_none:
  assumes "\<And>pre suf. text = pre @ suf \<Longrightarrow> \<not> timestamp_token_at suf"
  shows "re_search TIMESTAMP_RE text = None"
  unfolding re_search_def
proof (rule search_from_none)
  fix n' cs'
  assume "suffix cs' text"
  then obtain pre where "text = pre @ cs'" by (auto simp: suffix_def)
  then have "\<not> timestamp_token_at cs'" by (rule assms)
  then show "rmatch TIMESTAMP_RE (n', cs', []) = []"
    using timestamp_sound[of _ n' cs' "[]"] by (cases "rmatch TIMESTAMP_RE (n', cs', [])") auto
qed

lemma sub_none:
  "(\<And>n' cs'. suffix cs' cs \<Longrightarrow> rmatch r (n', cs', []) = []) \<Longrightarrow> re_sub_empty r False n cs = cs"
proof (induction cs arbitrary: n)
  case Nil
  then show ?case by (simp add: sub_end)
next
  case (Cons c cs)
  have "rmatch r (n, c # cs, []) = []" by (rule Cons.prems) simp
  moreover have "re_sub_empty r False (Suc n) cs = cs"
    by (rule Cons.IH) (rule Cons.prems, simp add: suffix_Cons)
  ultimately show ?case by (simp add: sub_skip)
qed

lemma link_sound:
  assumes "x \<in> set (rmatch TIMESTAMP_LINK_RE (n, cs, g))"
  shows "sublist [93, 40] cs"
proof -
  from assms obtain y0 where y0: "y0 \<in> set (rmatch (Star is_space) (n, cs, g))"
    and r0: "x \<in> set (rmatch (seqs [lit 91, Opt (lit 91), Rep1 is_digit, lit 58,
     Rep1 is_digit, Opt (lit 93), lit 93, lit 40, Rep1 (\<lambda>c. c \<noteq> 41), lit 41]) y0)"
    unfolding TIMESTAMP_LINK_RE_def mem_seqs_Cons[of x "Star is_space"] by blast
  from y0 obtain k where k: "y0 = (n + k, drop k cs, g)"
    by (auto simp: star_greedy_members)
  from r0 obtain y1 where y1: "y1 \<in> set (rmatch (lit 91) (n + k, drop k cs, g))"
    and r1: "x \<in> set (rmatch (seqs [Opt (lit 91), Rep1 is_digit, lit 58,
     Rep1 is_digit, Opt (lit 93), lit 93, lit 40, Rep1 (\<lambda>c. c \<noteq> 41), lit 41]) y1)"
    unfolding k mem_seqs_Cons[of x "lit 91"] by blast
  from y1 obtain c1 n1 where c1: "drop k cs = 91 # c1" "y1 = (n1, c1, g)"
    by (auto simp: mem_lit)
  from r1 obtain y2 where y2: "y2 \<in> set (rmatch (Opt (lit 91)) (n1, c1, g))"
    and r2: "x \<in> set (rmatch (seqs [Rep1 is_digit, lit 58,
     Rep1 is_digit, Opt (lit 93), lit 93, lit 40, Rep1 (\<lambda>c. c \<noteq> 41), lit 41]) y2)"
    unfolding c1(2) mem_seqs_Cons[of x "Opt (lit 91)"] by blast
  from y2 obtain ob c2 n2 where c2: "c1 = ob @ c2" "y2 = (n2, c2, g)"
    by (rule mem_Opt_lit_E)
  from r2 obtain y3 where y3: "y3 \<in> set (rmatch (Rep1 is_digit) (n2, c2, g))"
    and r3: "x \<in> set (rmatch (seqs [lit 58,
     Rep1 is_digit, Opt (lit 93), lit 93, lit 40, Rep1 (\<lambda>c. c \<noteq> 41), lit 41]) y3)"
    unfolding c2(2) mem_seqs_Cons[of x "Rep1 is_digit"] by blast
  from y3 obtain mm c3 n3 where c3: "c2 = mm @ c3" "y3 = (n3, c3, g)"
    by (rule mem_Rep1) blast
  from r3 obtain y4 where y4: "y4 \<in> set (rmatch (lit 58) (n3, c3, g))"
    and r4: "x \<in> set (rmatch (seqs [Rep1 is_digit, Opt (lit 93), lit 93, lit 40,
       Rep1 (\<lambda>c. c \<noteq> 41), lit 41]) y4)"
    unfolding c3(2) mem_seqs_Cons[of x "lit 58"] by blast
  from y4 obtain c4 n4 where c4: "c3 = 58 # c4" "y4 = (n4, c4, g)"
    by (auto simp: mem_lit)
  from r4 obtain y5 where y5: "y5 \<in> set (rmatch (Rep1 is_digit) (n4, c4, g))"
    and r5: "x \<in> set (rmatch (seqs [Opt (lit 93), lit 93, lit 40,
       Rep1 (\<lambda>c. c \<noteq> 41), lit 41]) y5)"
    unfolding c4(2) mem_seqs_Cons[of x "Rep1 is_digit"] by blast
  from y5 obtain ss c5 n5 where c5: "c4 = ss @ c5" "y5 = (n5, c5, g)"
    by (rule mem_Rep1) blast
  from r5 obtain y6 where y6: "y6 \<in> set (rmatch (Opt (lit 93)) (n5, c5, g))"
    and r6: "x \<in> set (rmatch (seqs [lit 93, lit 40, Rep1 (\<lambda>c. c \<noteq> 41), lit 41]) y6)"
    unfolding c5(2) mem_seqs_Cons[of x "Opt (lit 93)"] by blast
  from y6 obtain cb c6 n6 where c6: "c5 = cb @ c6" "y6 = (n6, c6, g)"
    by (rule mem_Opt_lit_E)
  from r6 obtain c8 where c8: "c6 = 93 # 40 # c8"
    unfolding c6(2) by (auto simp: mem_seqs_Cons mem_lit)
  have "cs = take k cs @ drop k cs" by simp
  also have "drop k cs = (91 # ob @ mm @ 58 # ss @ cb) @ [93, 40] @ c8"
    by (simp add: c1(1) c2(1) c3(1) c4(1) c5(1) c6(1) c8)
  finally have "cs = (take k cs @ 91 # ob @ mm @ 58 # ss @ cb) @ [93, 40] @ c8"
    by simp
  then show ?thesis
    unfolding sublist_def by blast
qed

lemma link_sub_unlinked:
  assumes "\<not> sublist [93, 40] text"
  shows "re_sub TIMESTAMP_LINK_RE text = text"
  unfolding re_sub_def
proof (rule sub_none)
  fix n' cs'
  assume "suffix cs' text"
  then have "\<not> sublist [93, 40] cs'"
    using assms by (meson sublist_order.order.trans suffix_imp_sublist)
  then show "rmatch TIMESTAMP_LINK_RE (n', cs', []) = []"
    using link_sound[of _ n' cs' "[]"] by (cases "rmatch TIMESTAMP_LINK_RE (n', cs', [])") auto
qed

lemma sub_none_from:
  "(\<And>n' cs'. n \<le> n' \<Longrightarrow> suffix cs' cs \<Longrightarrow> rmatch r (n', cs', []) = []) \<Longrightarrow>
   re_sub_empty r False n cs = cs"
proof (induction cs arbitrary: n)
  case Nil
  then show ?case by (simp add: sub_end)
next
  case (Cons c cs)
  have "rmatch r (n, c # cs, []) = []" by (rule Cons.prems) simp_all
  moreover have "re_sub_empty r False (Suc n) cs = cs"
    by (rule Cons.IH) (rule Cons.prems, simp_all add: suffix_Cons)
  ultimately show ?case by (simp add: sub_skip)
qed

lemma bullet_nomatch: "0 < n \<Longrightarrow> rmatch BULLET_RE (n, cs, g) = []"
  by (simp add: BULLET_RE_def seqs_def)

lemma first_Bol: "first_match Bol (0, cs, g) (0, cs, g)"
  by (simp add: first_match_def)

lemma bullet_first:
  assumes "is_bullet b"
  shows "first_match BULLET_RE (0, b # cs, [])
           (Suc (length (takeWhile is_space cs)), dropWhile is_space cs, [])"
proof -
  have w: "list_all is_space (takeWhile is_space cs)"
    by (simp add: list_all_iff) (meson set_takeWhileD)
  have d: "dropWhile is_space cs = [] \<or> \<not> is_space (hd (dropWhile is_space cs))"
    by (metis hd_dropWhile)
  have "first_match (Star is_space) (Suc 0, takeWhile is_space cs @ dropWhile is_space cs, [])
      (Suc 0 + length (takeWhile is_space cs), dropWhile is_space cs, [])"
    using w d by (rule first_Star)
  then have "first_match (Star is_space) (Suc 0, cs, [])
      (Suc (length (takeWhile is_space cs)), dropWhile is_space cs, [])"
    by simp
  then have st: "first_match (seqs [Star is_space]) (Suc 0, cs, [])
      (Suc (length (takeWhile is_space cs)), dropWhile is_space cs, [])"
    by (rule first_seqs_Cons[OF _ first_seqs_Nil])
  have sy: "first_match (Sym is_bullet) (0, b # cs, []) (Suc 0, cs, [])"
    using assms by (rule first_Sym)
  have "first_match (seqs [Sym is_bullet, Star is_space]) (0, b # cs, [])
      (Suc (length (takeWhile is_space cs)), dropWhile is_space cs, [])"
    by (rule first_seqs_Cons[OF sy st])
  then show ?thesis
    unfolding BULLET_RE_def by (rule first_seqs_Cons[OF first_Bol])
qed

lemma bullet_sub:
  assumes "startswith_bullet l"
  shows "re_sub BULLET_RE l = dropWhile is_space (tl l)"
proof -
  from assms obtain b cs where l: "l = b # cs" and b: "is_bullet b"
    by (cases l) (auto simp: startswith_bullet_def)
  have "length (dropWhile is_space cs) < length (b # cs)"
    using length_dropWhile_le[of is_space cs] by simp
  with bullet_first[OF b, of cs]
  have "re_sub_empty BULLET_RE False 0 (b # cs)
      = re_sub_empty BULLET_RE False (Suc (length (takeWhile is_space cs))) (dropWhile is_space cs)"
    by (rule sub_hit)
  also have "\<dots> = dropWhile is_space cs"
    by (rule sub_none_from) (simp add: bullet_nomatch)
  finally show ?thesis by (simp add: re_sub_def l)
qed

lemma ideas_loop_bullet:
  "startswith_bullet (py_strip line) \<Longrightarrow>
   ideas_loop (line # rest) acc
     = ideas_loop rest (acc @ [idea_of_text (dropWhile is_space (tl (py_strip line)))])"
  by (simp add: bullet_sub)

section \<open>Timestamps of ideas\<close>

lemma digit_value_ascii: "48 \<le> c \<Longrightarrow> c \<le> 57 \<Longrightarrow> digit_value c = c - 48"
  unfolding digit_value_def decimal_zeros_def by simp

lemmas re_char_defs = lit_def ieq_def any_char_def not_newline_def is_newline_def
  colon_or_space_def is_bullet_def is_space_def

lemmas re_eval = seqs_def lits_def ilits_def Rep1_def LazyRep1_def re_char_defs
  re_search_def re_sub_def re_findall_def re_sub_empty.simps findall_from.simps group_def
  is_digit_ascii ascii_def py_strip_def strip_by_def strip_chars_def

lemma py_int_12_05: "py_int (ascii ''12'') * 60 + py_int (ascii ''05'') = 725"
  by (simp add: py_int_def digit_value_ascii ascii_def)

lemma bare_token_ideas:
  "ideas (parse_markdown_summary (ascii ''# IDEAS'' @ 10 # ascii ''- Idea [[12:05]]'') (ascii ''v''))
     = Some [IdeaDict (ascii ''Idea [[12:05]]'') (Some 725)]"
proof -
  have 1: "re_search IDEAS_RE (ascii ''# IDEAS'' @ 10 # ascii ''- Idea [[12:05]]'')
     = Some (24, [], [(Suc 0, ascii ''- Idea [[12:05]]'')])"
    by (simp add: IDEAS_RE_def section_re_def re_eval)
  have 2: "section_lines (24, [], [(Suc 0, ascii ''- Idea [[12:05]]'')]) = [ascii ''- Idea [[12:05]]'']"
    by (simp add: section_lines_def group_def ascii_def py_strip_def strip_by_def is_space_def)
  have 3: "py_strip (ascii ''- Idea [[12:05]]'') = ascii ''- Idea [[12:05]]''"
    by (simp add: ascii_def py_strip_def strip_by_def is_space_def)
  have 4: "re_sub BULLET_RE (ascii ''- Idea [[12:05]]'') = ascii ''Idea [[12:05]]''"
    by (simp add: BULLET_RE_def re_eval)
  have 5: "idea_of_text (ascii ''Idea [[12:05]]'') = IdeaDict (ascii ''Idea [[12:05]]'') (Some 725)"
    by (simp add: idea_of_text_def TIMESTAMP_RE_def TIMESTAMP_LINK_RE_def re_eval
      py_int_def digit_value_ascii Let_def)
  have "startswith_bullet (ascii ''- Idea [[12:05]]'')"
    by (simp add: startswith_bullet_def is_bullet_def ascii_def)
  then show ?thesis
    by (simp add: ideas_field 1 2 3 4 5 Let_def)
qed

lemma linked_token_removed:
  "ideas (parse_markdown_summary (ascii ''# IDEAS'' @ 10 # ascii ''- Idea [[12:05]](u)'') (ascii ''v''))
     = Some [IdeaDict (ascii ''Idea'') (Some 725)]"
proof -
  have 1: "map_option section_lines
      (re_search IDEAS_RE (ascii ''# IDEAS'' @ 10 # ascii ''- Idea [[12:05]](u)''))
     = Some [ascii ''- Idea [[12:05]](u)'']"
    by (simp add: IDEAS_RE_def section_re_def section_lines_def re_eval)
  then obtain m where m: "re_search IDEAS_RE (ascii ''# IDEAS'' @ 10 # ascii ''- Idea [[12:05]](u)'')
      = Some m" "section_lines m = [ascii ''- Idea [[12:05]](u)'']"
    by auto
  have l: "ideas_loop [ascii ''- Idea [[12:05]](u)''] [] = [IdeaDict (ascii ''Idea'') (Some 725)]"
    by (simp add: startswith_bullet_def BULLET_RE_def idea_of_text_def TIMESTAMP_RE_def
        TIMESTAMP_LINK_RE_def re_eval py_int_def digit_value_ascii Let_def)
  show ?thesis
    by (simp only: ideas_field m option.map l) simp
qed

lemma quote_token_removed:
  "quotes (parse_markdown_summary (ascii ''# QUOTES'' @ 10 # ascii ''- Idea [12:05]'') (ascii ''v''))
     = Some [ascii ''Idea'']"
proof -
  have 1: "map_option section_lines
      (re_search QUOTES_RE (ascii ''# QUOTES'' @ 10 # ascii ''- Idea [12:05]''))
     = Some [ascii ''- Idea [12:05]'']"
    by (simp add: QUOTES_RE_def section_re_def section_lines_def re_eval)
  then obtain m where m: "re_search QUOTES_RE (ascii ''# QUOTES'' @ 10 # ascii ''- Idea [12:05]'')
      = Some m" "section_lines m = [ascii ''- Idea [12:05]'']"
    by auto
  have l: "quotes_loop [ascii ''- Idea [12:05]''] [] = [ascii ''Idea'']"
    by (simp add: startswith_bullet_def BULLET_RE_def SPEAKER_RE_def QUOTE_TIMESTAMP_RE_def
        re_eval Let_def)
  show ?thesis
    by (simp only: quotes_field m option.map l) simp
qed

text \<open>
  C3, at the input where the code departs from the claim. The bullet item
  \<open>Idea [[12:05]]\<close> gets the timestamp 725, as the claim says, but its stored text still
  holds the token: line 31 accepts a token with no link behind it, and the pattern of line
  35 that is to remove it asks for a link in parentheses. With a link the token and the
  link are removed, and the quotes loop (line 64) does remove a token that has no link.
\<close>

theorem bare_token_kept:
  "ideas (parse_markdown_summary (ascii ''# IDEAS'' @ 10 # ascii ''- Idea [[12:05]]'') (ascii ''v''))
     = Some [IdeaDict (ascii ''Idea [[12:05]]'') (Some 725)]
   \<and> ideas (parse_markdown_summary (ascii ''# IDEAS'' @ 10 # ascii ''- Idea [[12:05]](u)'')
        (ascii ''v'')) = Some [IdeaDict (ascii ''Idea'') (Some 725)]
   \<and> quotes (parse_markdown_summary (ascii ''# QUOTES'' @ 10 # ascii ''- Idea [12:05]'')
        (ascii ''v'')) = Some [ascii ''Idea'']"
  by (intro conjI bare_token_ideas linked_token_removed quote_token_removed)

text \<open>
  What lines 31 to 38 do with the text of a bullet item in general. A bullet line appends
  the idea of its text after the marker and the white space behind it. If the first opening
  bracket of the text starts a token (brackets maybe doubled), the timestamp is minutes
  times 60 plus seconds. If the token is followed by a non-empty link in parentheses, the
  token, the link and the white space before the token are removed. A text with no closing
  bracket followed by an opening parenthesis is stored as it is (stripped when it has a
  timestamp). A text in which no token starts anywhere has no timestamp and is stored
  unchanged.
\<close>

lemma idea_timestamp:
  "(startswith_bullet (py_strip line) \<longrightarrow>
      ideas_loop (line # rest) acc
        = ideas_loop rest (acc @ [idea_of_text (dropWhile is_space (tl (py_strip line)))]))
   \<and> (91 \<notin> set pre \<and> (ob = [] \<or> ob = [91]) \<and> mm \<noteq> [] \<and> list_all is_digit mm
      \<and> ss \<noteq> [] \<and> list_all is_digit ss
     \<longrightarrow> (\<exists>t. idea_of_text (pre @ [91] @ ob @ mm @ [58] @ ss @ [93] @ post)
               = IdeaDict t (Some (py_int mm * 60 + py_int ss))))
   \<and> ((lead = [] \<or> \<not> is_space (last lead)) \<and> 91 \<notin> set lead \<and> list_all is_space w
      \<and> (ob = [] \<or> ob = [91]) \<and> mm \<noteq> [] \<and> list_all is_digit mm
      \<and> ss \<noteq> [] \<and> list_all is_digit ss \<and> (cb = [] \<or> cb = [93])
      \<and> url \<noteq> [] \<and> 41 \<notin> set url \<and> 91 \<notin> set post'
     \<longrightarrow> idea_of_text (lead @ w @ [91] @ ob @ mm @ [58] @ ss @ [93] @ cb @ [40] @ url @ [41] @ post')
           = IdeaDict (py_strip (lead @ post')) (Some (py_int mm * 60 + py_int ss)))
   \<and> (\<not> sublist [93, 40] item
     \<longrightarrow> (\<exists>ts. idea_of_text item = IdeaDict (if ts = None then item else py_strip item) ts))
   \<and> ((\<forall>a b. item = a @ b \<longrightarrow> \<not> timestamp_token_at b)
     \<longrightarrow> idea_of_text item = IdeaDict item None)
   \<and> py_int (ascii ''12'') * 60 + py_int (ascii ''05'') = 725"
proof (intro conjI impI)
  assume "startswith_bullet (py_strip line)"
  then show "ideas_loop (line # rest) acc
        = ideas_loop rest (acc @ [idea_of_text (dropWhile is_space (tl (py_strip line)))])"
    by (rule ideas_loop_bullet)
next
  assume h: "91 \<notin> set pre \<and> (ob = [] \<or> ob = [91]) \<and> mm \<noteq> [] \<and> list_all is_digit mm
      \<and> ss \<noteq> [] \<and> list_all is_digit ss"
  then obtain m where "re_search TIMESTAMP_RE (pre @ 91 # ob @ mm @ 58 # ss @ 93 # post) = Some m"
    "group m 1 = mm" "group m 2 = ss"
    using timestamp_search[of pre ob mm ss post] by blast
  then show "\<exists>t. idea_of_text (pre @ [91] @ ob @ mm @ [58] @ ss @ [93] @ post)
               = IdeaDict t (Some (py_int mm * 60 + py_int ss))"
    by (simp add: idea_of_text_def Let_def)
next
  assume h: "(lead = [] \<or> \<not> is_space (last lead)) \<and> 91 \<notin> set lead \<and> list_all is_space w
      \<and> (ob = [] \<or> ob = [91]) \<and> mm \<noteq> [] \<and> list_all is_digit mm
      \<and> ss \<noteq> [] \<and> list_all is_digit ss \<and> (cb = [] \<or> cb = [93])
      \<and> url \<noteq> [] \<and> 41 \<notin> set url \<and> 91 \<notin> set post'"
  have "91 \<notin> set w" using h by (auto simp: list_all_iff)
  then have "91 \<notin> set (lead @ w)" using h by simp
  then obtain m where m: "re_search TIMESTAMP_RE
      ((lead @ w) @ 91 # ob @ mm @ 58 # ss @ 93 # (cb @ 40 # url @ 41 # post')) = Some m"
    "group m 1 = mm" "group m 2 = ss"
    using h timestamp_search[of "lead @ w" ob mm ss "cb @ 40 # url @ 41 # post'"] by blast
  have sub: "re_sub TIMESTAMP_LINK_RE
            (lead @ w @ 91 # ob @ mm @ 58 # ss @ 93 # cb @ 40 # url @ 41 # post') = lead @ post'"
    using h by (intro link_sub) blast+
  show "idea_of_text (lead @ w @ [91] @ ob @ mm @ [58] @ ss @ [93] @ cb @ [40] @ url @ [41] @ post')
           = IdeaDict (py_strip (lead @ post')) (Some (py_int mm * 60 + py_int ss))"
    using m sub by (simp add: idea_of_text_def Let_def)
next
  assume "\<not> sublist [93, 40] item"
  then have sub: "re_sub TIMESTAMP_LINK_RE item = item" by (rule link_sub_unlinked)
  show "\<exists>ts. idea_of_text item = IdeaDict (if ts = None then item else py_strip item) ts"
  proof (cases "re_search TIMESTAMP_RE item")
    case None
    then have "idea_of_text item = IdeaDict (if (None :: int option) = None then item else py_strip item) None"
      by (simp add: idea_of_text_def)
    then show ?thesis by blast
  next
    case (Some m)
    then have "idea_of_text item = IdeaDict
        (if Some (py_int (group m 1) * 60 + py_int (group m 2)) = None then item else py_strip item)
        (Some (py_int (group m 1) * 60 + py_int (group m 2)))"
      by (simp add: idea_of_text_def sub Let_def)
    then show ?thesis by blast
  qed
next
  assume "\<forall>a b. item = a @ b \<longrightarrow> \<not> timestamp_token_at b"
  then have "re_search TIMESTAMP_RE item = None"
    by (intro timestamp_search_none) blast
  then show "idea_of_text item = IdeaDict item None"
    by (simp add: idea_of_text_def)
next
  show "py_int (ascii ''12'') * 60 + py_int (ascii ''05'') = 725"
    by (rule py_int_12_05)
qed

lemma token_needs_bracket: "timestamp_token_at b \<Longrightarrow> 91 \<in> set b"
  by (auto simp: timestamp_token_at_def)

lemma idea_timestamp_example:
  "idea_of_text (ascii ''Big idea  [[12:05]](https://youtu.be/x?t=725)'')
     = IdeaDict (ascii ''Big idea'') (Some 725)
   \<and> idea_of_text (ascii ''Plain idea'') = IdeaDict (ascii ''Plain idea'') None
   \<and> ideas_loop [ascii ''- Plain idea''] [] = [IdeaDict (ascii ''Plain idea'') None]"
proof -
  have d: "list_all is_digit (ascii ''12'')" "list_all is_digit (ascii ''05'')"
    by (simp_all add: ascii_def is_digit_ascii)
  have sp: "list_all is_space (ascii ''  '')"
    by (simp add: ascii_def is_space_def)
  have a: "\<not> is_space (last (ascii ''Big idea''))" "91 \<notin> set (ascii ''Big idea'')"
     "41 \<notin> set (ascii ''https://youtu.be/x?t=725'')"
    by (simp_all add: ascii_def is_space_def)
  have eq: "ascii ''Big idea  [[12:05]](https://youtu.be/x?t=725)''
     = ascii ''Big idea'' @ ascii ''  '' @ [91] @ [91] @ ascii ''12'' @ [58] @ ascii ''05'' @ [93] @ [93]
        @ [40] @ ascii ''https://youtu.be/x?t=725'' @ [41] @ []"
    by (simp add: ascii_def)
  have strip: "py_strip (ascii ''Big idea'' @ []) = ascii ''Big idea''"
    by (simp add: ascii_def py_strip_def strip_by_def is_space_def)
  have nb: "\<forall>a b. ascii ''Plain idea'' = a @ b \<longrightarrow> \<not> timestamp_token_at b"
  proof (intro allI impI notI)
    fix a b
    assume "ascii ''Plain idea'' = a @ b" "timestamp_token_at b"
    then have "91 \<in> set (ascii ''Plain idea'')"
      using token_needs_bracket[of b] by (metis Un_iff set_append)
    then show False by (simp add: ascii_def)
  qed
  note inst = idea_timestamp [where lead = "ascii ''Big idea''" and w = "ascii ''  ''"
      and ob = "[91]" and mm = "ascii ''12''" and ss = "ascii ''05''" and cb = "[93]"
      and url = "ascii ''https://youtu.be/x?t=725''" and post' = "[]"
      and item = "ascii ''Plain idea''" and line = "ascii ''- Plain idea''" and rest = "[]"
      and acc = "[]"]
  have u: "ascii ''https://youtu.be/x?t=725'' \<noteq> []" "ascii ''12'' \<noteq> []" "ascii ''05'' \<noteq> []"
    by (simp_all add: ascii_def)
  have B: "idea_of_text (ascii ''Big idea'' @ ascii ''  '' @ [91] @ [91] @ ascii ''12'' @ [58]
        @ ascii ''05'' @ [93] @ [93] @ [40] @ ascii ''https://youtu.be/x?t=725'' @ [41] @ [])
      = IdeaDict (py_strip (ascii ''Big idea'' @ []))
          (Some (py_int (ascii ''12'') * 60 + py_int (ascii ''05'')))"
    by (rule inst[THEN conjunct2, THEN conjunct2, THEN conjunct1, THEN mp]) (use d sp a u in simp)
  have D: "idea_of_text (ascii ''Plain idea'') = IdeaDict (ascii ''Plain idea'') None"
    by (rule inst[THEN conjunct2, THEN conjunct2, THEN conjunct2, THEN conjunct2, THEN conjunct1, THEN mp])
      (rule nb)
  have v: "py_int (ascii ''12'') * 60 + py_int (ascii ''05'') = 725"
    by (rule inst[THEN conjunct2, THEN conjunct2, THEN conjunct2, THEN conjunct2, THEN conjunct2])
  have l: "py_strip (ascii ''- Plain idea'') = ascii ''- Plain idea''"
    "dropWhile is_space (tl (ascii ''- Plain idea'')) = ascii ''Plain idea''"
    "startswith_bullet (ascii ''- Plain idea'')"
    by (simp_all add: ascii_def py_strip_def strip_by_def is_space_def startswith_bullet_def
        is_bullet_def)
  have "startswith_bullet (py_strip (ascii ''- Plain idea''))"
    by (simp only: l)
  then have "ideas_loop (ascii ''- Plain idea'' # []) []
      = ideas_loop [] ([] @ [idea_of_text (dropWhile is_space (tl (py_strip (ascii ''- Plain idea''))))])"
    by (rule inst[THEN conjunct1, THEN mp])
  then have L: "ideas_loop [ascii ''- Plain idea''] [] = [IdeaDict (ascii ''Plain idea'') None]"
    by (simp only: l D ideas_loop.simps append_Nil)
  show ?thesis
    unfolding eq B strip v using D L by simp
qed

section \<open>The summary section and empty items\<close>

text \<open>
  C7, at the input where the code departs from the claim. A SUMMARY section that runs to
  the end of the document, with no blank line and no heading after it, gives no \<open>tldr\<close>:
  the lookahead of the pattern has no alternative for the end of the text. With a blank
  line after it the same section is extracted, and the TAKEAWAY pattern, which has that
  alternative, does extract a section that ends the document.
\<close>

theorem summary_at_end_of_document:
  "tldr (parse_markdown_summary (ascii ''# SUMMARY'' @ 10 # ascii ''Hello'') (ascii ''v'')) = None
   \<and> tldr (parse_markdown_summary (ascii ''# SUMMARY'' @ 10 # ascii ''Hello'' @ [10, 10]) (ascii ''v''))
       = Some (ascii ''Hello'')
   \<and> takeaway (parse_markdown_summary (ascii ''# TAKEAWAY'' @ 10 # ascii ''Hello'') (ascii ''v''))
       = Some (ascii ''Hello'')"
proof (intro conjI)
  have "re_search SUMMARY_RE (ascii ''# SUMMARY'' @ 10 # ascii ''Hello'') = None"
    by (simp add: SUMMARY_RE_def re_eval)
  then show "tldr (parse_markdown_summary (ascii ''# SUMMARY'' @ 10 # ascii ''Hello'') (ascii ''v''))
      = None"
    by (simp add: tldr_field)
next
  have "map_option (\<lambda>m. strip_chars [62] (py_strip (group m 1)))
      (re_search SUMMARY_RE (ascii ''# SUMMARY'' @ 10 # ascii ''Hello'' @ [10, 10]))
      = Some (ascii ''Hello'')"
    by (simp add: SUMMARY_RE_def re_eval)
  then show "tldr (parse_markdown_summary (ascii ''# SUMMARY'' @ 10 # ascii ''Hello'' @ [10, 10])
      (ascii ''v'')) = Some (ascii ''Hello'')"
    by (simp only: tldr_field)
next
  have "map_option (\<lambda>m. py_strip (group m 1))
      (re_search TAKEAWAY_RE (ascii ''# TAKEAWAY'' @ 10 # ascii ''Hello'')) = Some (ascii ''Hello'')"
    by (simp add: TAKEAWAY_RE_def re_eval)
  then show "takeaway (parse_markdown_summary (ascii ''# TAKEAWAY'' @ 10 # ascii ''Hello'')
      (ascii ''v'')) = Some (ascii ''Hello'')"
    by (simp only: takeaway_field)
qed

lemma bare_bullet_text: "is_bullet b \<Longrightarrow> re_sub BULLET_RE [b] = []"
  by (simp add: BULLET_RE_def re_eval)

lemma idea_of_empty: "idea_of_text [] = IdeaDict [] None"
  by (simp add: idea_of_text_def TIMESTAMP_RE_def re_eval)

lemma cleanup_of_empty:
  "re_sub TIMESTAMP_LINK_RE [] = []" "re_sub SPEAKER_RE [] = []" "re_sub QUOTE_TIMESTAMP_RE [] = []"
  by (simp_all add: TIMESTAMP_LINK_RE_def SPEAKER_RE_def QUOTE_TIMESTAMP_RE_def re_eval)

lemma insights_loop_nonempty: "[] \<notin> set acc \<Longrightarrow> [] \<notin> set (insights_loop ls acc)"
  by (induction ls arbitrary: acc) (simp_all add: Let_def)

lemma quotes_loop_nonempty: "[] \<notin> set acc \<Longrightarrow> [] \<notin> set (quotes_loop ls acc)"
  by (induction ls arbitrary: acc) (simp_all add: Let_def)

lemma facts_loop_nonempty: "[] \<notin> set acc \<Longrightarrow> [] \<notin> set (facts_loop ls acc)"
  by (induction ls arbitrary: acc) (simp_all add: Let_def)

lemma ideas_loop_length:
  "length (ideas_loop ls acc) = length acc + length (filter (\<lambda>l. startswith_bullet (py_strip l)) ls)"
  by (induction ls arbitrary: acc) (simp_all add: Let_def)

lemma bullet_strip: "is_bullet b \<Longrightarrow> py_strip [b] = [b]"
  by (auto simp: is_bullet_def py_strip_def strip_by_def is_space_def)

lemma ideas_loop_acc: "ideas_loop ls acc = acc @ ideas_loop ls []"
proof (induction ls arbitrary: acc)
  case Nil
  then show ?case by simp
next
  case (Cons l ls)
  show ?case
    using Cons.IH[of "acc @ [idea_of_text (re_sub BULLET_RE (py_strip l))]"]
      Cons.IH[of "[idea_of_text (re_sub BULLET_RE (py_strip l))]"] Cons.IH[of acc]
    by (simp add: Let_def)
qed

lemma bare_bullets_fill:
  "is_bullet b \<Longrightarrow>
   ideas_loop (replicate n [b] @ ls) acc = acc @ replicate n (IdeaDict [] None) @ ideas_loop ls []"
proof (induction n arbitrary: acc)
  case 0
  then show ?case using ideas_loop_acc[of ls acc] by simp
next
  case (Suc n)
  have "startswith_bullet [b]" using Suc.prems by (simp add: startswith_bullet_def)
  then have "ideas_loop (replicate (Suc n) [b] @ ls) acc
      = ideas_loop (replicate n [b] @ ls) (acc @ [IdeaDict [] None])"
    using Suc.prems by (simp add: bullet_strip bare_bullet_text idea_of_empty)
  also have "\<dots> = (acc @ [IdeaDict [] None]) @ replicate n (IdeaDict [] None) @ ideas_loop ls []"
    using Suc.prems by (rule Suc.IH)
  finally show ?case by (simp add: replicate_append_same)
qed

lemma bare_bullets_cap:
  "is_bullet b \<Longrightarrow> take 15 (ideas_loop (replicate 15 [b] @ ls) []) = replicate 15 (IdeaDict [] None)"
  by (simp add: bare_bullets_fill)

text \<open>
  C10. A line that is a bare bullet marker once stripped appends an idea with empty text
  and no timestamp to the ideas, and appends nothing to the insights, the quotes or the
  facts. No insight, quote or fact is ever empty, while the ideas get one item for every
  bullet line; fifteen bare markers at the head of the section fill the cap of fifteen,
  whatever follows them. The two documents at the end show both on a whole document.
\<close>

theorem empty_items_asymmetric:
  "(is_bullet b \<and> py_strip line = [b] \<longrightarrow>
       ideas_loop (line # rest) acc = ideas_loop rest (acc @ [IdeaDict [] None])
     \<and> insights_loop (line # rest) acc' = insights_loop rest acc'
     \<and> quotes_loop (line # rest) acc' = quotes_loop rest acc'
     \<and> facts_loop (line # rest) acc' = facts_loop rest acc')
   \<and> [] \<notin> set (insights_loop ls [])
   \<and> [] \<notin> set (quotes_loop ls [])
   \<and> [] \<notin> set (facts_loop ls [])
   \<and> length (ideas_loop ls []) = length (filter (\<lambda>l. startswith_bullet (py_strip l)) ls)
   \<and> (is_bullet b \<longrightarrow>
        take 15 (ideas_loop (replicate 15 [b] @ ls) []) = replicate 15 (IdeaDict [] None))
   \<and> ideas (parse_markdown_summary (ascii ''# IDEAS'' @ 10 # ascii ''-'' @ 10 # ascii ''- x'')
         (ascii ''v'')) = Some [IdeaDict [] None, IdeaDict (ascii ''x'') None]
   \<and> insights (parse_markdown_summary (ascii ''# INSIGHTS'' @ 10 # ascii ''-'' @ 10 # ascii ''- x'')
         (ascii ''v'')) = Some [ascii ''x'']"
proof (intro conjI impI)
  assume h: "is_bullet b \<and> py_strip line = [b]"
  then have sb: "startswith_bullet [b]" by (simp add: startswith_bullet_def)
  have e: "py_strip [] = []" "strip_chars [34, 39] [] = []"
    by (simp_all add: py_strip_def strip_chars_def strip_by_def)
  show "ideas_loop (line # rest) acc = ideas_loop rest (acc @ [IdeaDict [] None])"
    using h sb by (simp add: bare_bullet_text idea_of_empty)
  show "insights_loop (line # rest) acc' = insights_loop rest acc'"
    using h sb by (simp add: bare_bullet_text cleanup_of_empty e)
  show "quotes_loop (line # rest) acc' = quotes_loop rest acc'"
    using h sb by (simp add: bare_bullet_text cleanup_of_empty e)
  show "facts_loop (line # rest) acc' = facts_loop rest acc'"
    using h sb by (simp add: bare_bullet_text cleanup_of_empty e)
next
  show "[] \<notin> set (insights_loop ls [])" by (simp add: insights_loop_nonempty)
  show "[] \<notin> set (quotes_loop ls [])" by (simp add: quotes_loop_nonempty)
  show "[] \<notin> set (facts_loop ls [])" by (simp add: facts_loop_nonempty)
  show "length (ideas_loop ls []) = length (filter (\<lambda>l. startswith_bullet (py_strip l)) ls)"
    by (simp add: ideas_loop_length)
next
  assume "is_bullet b"
  then show "take 15 (ideas_loop (replicate 15 [b] @ ls) []) = replicate 15 (IdeaDict [] None)"
    by (rule bare_bullets_cap)
next
  have "map_option section_lines
      (re_search IDEAS_RE (ascii ''# IDEAS'' @ 10 # ascii ''-'' @ 10 # ascii ''- x''))
      = Some [ascii ''-'', ascii ''- x'']"
    by (simp add: IDEAS_RE_def section_re_def section_lines_def re_eval)
  then obtain m where m: "re_search IDEAS_RE (ascii ''# IDEAS'' @ 10 # ascii ''-'' @ 10 # ascii ''- x'')
      = Some m" "section_lines m = [ascii ''-'', ascii ''- x'']"
    by auto
  have l: "ideas_loop [ascii ''-'', ascii ''- x''] [] = [IdeaDict [] None, IdeaDict (ascii ''x'') None]"
    by (simp add: startswith_bullet_def BULLET_RE_def idea_of_text_def TIMESTAMP_RE_def re_eval)
  show "ideas (parse_markdown_summary (ascii ''# IDEAS'' @ 10 # ascii ''-'' @ 10 # ascii ''- x'')
         (ascii ''v'')) = Some [IdeaDict [] None, IdeaDict (ascii ''x'') None]"
    by (simp only: ideas_field m option.map l) simp
next
  have "map_option section_lines
      (re_search INSIGHTS_RE (ascii ''# INSIGHTS'' @ 10 # ascii ''-'' @ 10 # ascii ''- x''))
      = Some [ascii ''-'', ascii ''- x'']"
    by (simp add: INSIGHTS_RE_def section_re_def section_lines_def re_eval)
  then obtain m where m: "re_search INSIGHTS_RE (ascii ''# INSIGHTS'' @ 10 # ascii ''-'' @ 10 # ascii ''- x'')
      = Some m" "section_lines m = [ascii ''-'', ascii ''- x'']"
    by auto
  have l: "insights_loop [ascii ''-'', ascii ''- x''] [] = [ascii ''x'']"
    by (simp add: startswith_bullet_def BULLET_RE_def TIMESTAMP_LINK_RE_def re_eval)
  show "insights (parse_markdown_summary (ascii ''# INSIGHTS'' @ 10 # ascii ''-'' @ 10 # ascii ''- x'')
         (ascii ''v'')) = Some [ascii ''x'']"
    by (simp only: insights_field m option.map l) simp
qed

theorem empty_items_asymmetric_witness:
  "ideas_loop [ascii '' - ''] [] = [IdeaDict [] None]
   \<and> insights_loop [ascii '' - ''] [] = []
   \<and> quotes_loop [ascii '' - ''] [] = []
   \<and> facts_loop [ascii '' - ''] [] = []
   \<and> take 15 (ideas_loop (replicate 15 [45] @ [ascii ''- late'']) [])
       = replicate 15 (IdeaDict [] None)"
proof -
  have b: "is_bullet 45" by (simp add: is_bullet_def)
  have s: "py_strip (ascii '' - '') = [45]"
    by (simp add: ascii_def py_strip_def strip_by_def is_space_def)
  note inst = empty_items_asymmetric [where b = 45 and line = "ascii '' - ''" and rest = "[]"
      and acc = "[]" and acc' = "[]" and ls = "[ascii ''- late'']"]
  have "is_bullet 45 \<and> py_strip (ascii '' - '') = [45]" using b s by simp
  with inst have "ideas_loop [ascii '' - ''] [] = ideas_loop [] ([] @ [IdeaDict [] None])
     \<and> insights_loop [ascii '' - ''] [] = insights_loop [] []
     \<and> quotes_loop [ascii '' - ''] [] = quotes_loop [] []
     \<and> facts_loop [ascii '' - ''] [] = facts_loop [] []"
    by blast
  moreover from inst b have "take 15 (ideas_loop (replicate 15 [45] @ [ascii ''- late'']) [])
       = replicate 15 (IdeaDict [] None)"
    by blast
  ultimately show ?thesis by simp
qed

end
